(* ===== verification/Axion_Prelude.thy ===== *)
theory Axion_Prelude
  imports Main "HOL-Library.Word" "HOL-Library.Monad_Syntax"
begin

text \<open>
  Shared vocabulary of the development: the machine integer types of the kernel and of bionic,
  the error codes the drivers return, the branch-free idioms on 32-bit signed values that the
  scheduler code uses instead of comparisons, decimal printing as done by the \<open>%u\<close> and
  \<open>%d\<close> conversions, and C string helpers.
  The collections \<open>c_arith\<close> (branch-free arithmetic) and \<open>unat_simps\<close> (reading words as
  natural numbers) are used by the component theories.
\<close>

unbundle bit_operations_syntax

named_theorems c_arith \<open>meaning of branch-free word idioms\<close>
named_theorems unat_simps \<open>words read as natural numbers\<close>

type_synonym u8 = "8 word"
type_synonym u16 = "16 word"
type_synonym u32 = "32 word"
type_synonym u64 = "64 word"
type_synonym s16 = "16 word"
type_synonym s32 = "32 word"
type_synonym s64 = "64 word"

text \<open>
  Signed C integers are kept as words too and read with \<^const>\<open>sint\<close>: the kernel is built with
  wrapping signed arithmetic (\<^verbatim>\<open>-fno-strict-overflow\<close>), so \<open>+\<close>, \<open>-\<close> and \<open>*\<close> on words are the
  machine's operations for signed and unsigned operands alike.
\<close>

text \<open>The error codes named by the sources; \<open>Errno\<close> stands for any other code a callee returns.\<close>

datatype errno = EINVAL | ENOMEM | ESRCH | ENOENT | EFAULT | ERANGE | Errno nat

text \<open>Decimal rendering of the \<open>%u\<close>, \<open>%d\<close> and \<open>%lld\<close> conversions.\<close>

definition digit_char :: "nat \<Rightarrow> char" where
  "digit_char d = char_of (48 + d)"

fun dec_nat :: "nat \<Rightarrow> string" where
  "dec_nat n = (if n < 10 then [digit_char n] else dec_nat (n div 10) @ [digit_char (n mod 10)])"

declare dec_nat.simps [simp del]

definition dec_int :: "int \<Rightarrow> string" where
  "dec_int i = (if i < 0 then CHR ''-'' # dec_nat (nat (- i)) else dec_nat (nat i))"

text \<open>Reading decimal digits back, used to state that what is printed determines the value.\<close>

definition digit_val :: "char \<Rightarrow> nat" where
  "digit_val c = of_char c - 48"

definition is_digit :: "char \<Rightarrow> bool" where
  "is_digit c \<longleftrightarrow> 48 \<le> (of_char c :: nat) \<and> (of_char c :: nat) \<le> 57"

fun val_dec :: "nat \<Rightarrow> string \<Rightarrow> nat" where
  "val_dec acc [] = acc"
| "val_dec acc (c # cs) = val_dec (10 * acc + digit_val c) cs"

text \<open>
  C strings. A \<^typ>\<open>string\<close> in the model holds the characters before the terminating NUL. A buffer
  read from user space may hold NUL bytes of its own: \<open>cstr\<close> is what string functions see of it.
\<close>

definition NUL :: char where
  "NUL = CHR 0x00"

definition NL :: string where
  "NL = [CHR 0x0A]"

definition cstr :: "string \<Rightarrow> string" where
  "cstr buf = takeWhile (\<lambda>c. c \<noteq> NUL) buf"

text \<open>\<open>strncmp\<close>: the difference of the first pair of bytes that differ within the first \<open>n\<close>.\<close>

fun strncmp :: "string \<Rightarrow> string \<Rightarrow> nat \<Rightarrow> int" where
  "strncmp s t 0 = 0"
| "strncmp [] [] (Suc n) = 0"
| "strncmp [] (d # ds) (Suc n) = - int (of_char d)"
| "strncmp (c # cs) [] (Suc n) = int (of_char c)"
| "strncmp (c # cs) (d # ds) (Suc n) =
     (if c = d then strncmp cs ds n else int (of_char c) - int (of_char d))"

text \<open>
  \<open>strchr(s, c)\<close> followed by the store of a NUL through the returned pointer: the part of \<open>s\<close>
  before the first \<open>c\<close> and the part after it.
\<close>

definition split_at_char :: "char \<Rightarrow> string \<Rightarrow> (string \<times> string) option" where
  "split_at_char c s =
     (case dropWhile (\<lambda>x. x \<noteq> c) s of
        [] \<Rightarrow> None
      | _ # rest \<Rightarrow> Some (takeWhile (\<lambda>x. x \<noteq> c) s, rest))"

text \<open>Word values are compared through \<^const>\<open>unat\<close> throughout.\<close>

declare of_nat_unat [simp del]

section \<open>Branch-free arithmetic\<close>

lemma bit_31_iff: "bit (x :: s32) 31 \<longleftrightarrow> sint x < 0"
  using bit_last_iff [of x] by simp

lemma sar_31: "signed_drop_bit 31 (x :: s32) = (if sint x < 0 then - 1 else 0)"
proof (rule bit_word_eqI)
  fix n
  assume "n < LENGTH(32)"
  then show "bit (signed_drop_bit 31 x) n \<longleftrightarrow> bit (if sint x < 0 then - 1 else 0 :: s32) n"
    by (cases n) (auto simp: bit_signed_drop_bit_iff bit_31_iff)
qed

lemma relu_s32 [c_arith]: "(x :: s32) AND NOT (signed_drop_bit 31 x) = (if sint x < 0 then 0 else x)"
  by (simp add: sar_31)

lemma neg_part_s32 [c_arith]: "(x :: s32) AND signed_drop_bit 31 x = (if sint x < 0 then x else 0)"
  by (simp add: sar_31)

text \<open>A 32-bit difference of two values below \<open>2 ^ 31\<close> has the sign of the true difference.\<close>

lemma uint_less_of_unat: "unat x < n \<Longrightarrow> uint x < int n"
  by (metis of_nat_less_iff of_nat_unat)

lemma sint_of_small:
  fixes x :: s32
  assumes "unat x < 2 ^ 31"
  shows "sint x = int (unat x)"
proof -
  have "uint x < 2 ^ 31"
    using uint_less_of_unat [OF assms] by simp
  then have "signed_take_bit 31 (uint x) = uint x"
    by (intro signed_take_bit_int_eq_self) (simp_all add: order_trans [OF _ unsigned_greater_eq])
  then show ?thesis
    by (simp add: sint_uint of_nat_unat)
qed

lemma sint_diff_small:
  fixes a b :: s32
  assumes "unat a < 2 ^ 31" and "unat b < 2 ^ 31"
  shows "sint (a - b) = int (unat a) - int (unat b)"
proof -
  have "sint (a - b) = signed_take_bit 31 (int (unat a) - int (unat b))"
    using assms by (simp add: sint_word_diff sint_of_small)
  also have "\<dots> = int (unat a) - int (unat b)"
    using assms by (intro signed_take_bit_int_eq_self) simp_all
  finally show ?thesis .
qed

lemma sint_add_small:
  fixes a b :: s32
  assumes "- (2 ^ 31) \<le> sint a + sint b" and "sint a + sint b < 2 ^ 31"
  shows "sint (a + b) = sint a + sint b"
  using assms by (simp add: sint_word_add signed_take_bit_int_eq_self)

lemma sint_minus_small:
  fixes a b :: s32
  assumes "- (2 ^ 31) \<le> sint a - sint b" and "sint a - sint b < 2 ^ 31"
  shows "sint (a - b) = sint a - sint b"
  using assms by (simp add: sint_word_diff signed_take_bit_int_eq_self)

section \<open>Words read as natural numbers\<close>

lemma unat_ucast_widen:
  fixes x :: "'a :: len word"
  assumes "LENGTH('a) \<le> LENGTH('b)"
  shows "unat (ucast x :: 'b :: len word) = unat x"
proof -
  have "unat x < 2 ^ LENGTH('a)"
    by (rule unsigned_less)
  also have "\<dots> \<le> 2 ^ LENGTH('b)"
    using assms by (rule power_increasing) simp
  finally show ?thesis
    by (simp add: unsigned_ucast_eq take_bit_nat_eq_self)
qed

lemma unat_ucast_u16_u32 [unat_simps]: "unat (ucast (x :: u16) :: u32) = unat x"
  by (rule unat_ucast_widen) simp

lemma unat_ucast_u8_u32 [unat_simps]: "unat (ucast (x :: u8) :: u32) = unat x"
  by (rule unat_ucast_widen) simp

lemma unat_ucast_u32_u64 [unat_simps]: "unat (ucast (x :: u32) :: u64) = unat x"
  by (rule unat_ucast_widen) simp

lemma unat_u16_lt [simp]: "unat (x :: u16) < 65536"
  using unsigned_less [of x, where 'a = nat] by simp

lemma unat_u32_lt [simp]: "unat (x :: u32) < 4294967296"
  using unsigned_less [of x, where 'a = nat] by simp

lemma unat_u64_lt [simp]: "unat (x :: u64) < 18446744073709551616"
  using unsigned_less [of x, where 'a = nat] by simp

lemma unat_ucast_u32_u16 [unat_simps]: "unat (x :: u32) < 65536 \<Longrightarrow> unat (ucast x :: u16) = unat x"
  by (simp add: unsigned_ucast_eq take_bit_nat_eq_self)

lemma ucast_u16_u32_u16 [simp]: "ucast (ucast (x :: u16) :: u32) = x"
  by (simp add: word_unat_eq_iff unat_simps)

lemma unat_of_nonneg_sint:
  fixes x :: s32
  assumes "0 \<le> sint x"
  shows "int (unat x) = sint x"
proof -
  have "sint x < 2 ^ 31"
    using sint_lt [of x] by simp
  then have "take_bit 32 (sint x) = sint x"
    using assms by (intro take_bit_int_eq_self) simp_all
  then show ?thesis
    using uint_sint [of x] by (simp add: of_nat_unat)
qed

lemma unat_max_word [unat_simps]: "unat (max a b) = max (unat a) (unat (b :: 'a :: len word))"
  by (simp add: max_def word_le_nat_alt)

lemma unat_min_word [unat_simps]: "unat (min a b) = min (unat a) (unat (b :: 'a :: len word))"
  by (simp add: min_def word_le_nat_alt)

section \<open>C strings\<close>

lemma of_char_0_iff [simp]: "of_char c = (0 :: nat) \<longleftrightarrow> c = NUL"
proof -
  have "of_char NUL = (0 :: nat)"
    by (simp add: NUL_def)
  then show ?thesis
    by (metis of_char_eq_iff)
qed

text \<open>Strings without NUL bytes compare equal within \<open>n\<close> bytes when their first \<open>n\<close> bytes agree.\<close>

lemma strncmp_eq_0:
  assumes "NUL \<notin> set a" and "NUL \<notin> set b"
  shows "strncmp a b n = 0 \<longleftrightarrow> take n a = take n b"
  using assms by (induction a b n rule: strncmp.induct) auto

section \<open>Decimal text\<close>

lemma digit_char_props:
  assumes "d < 10"
  shows "is_digit (digit_char d)" and "digit_val (digit_char d) = d"
  using assms by (simp_all add: is_digit_def digit_val_def digit_char_def)

lemma dec_nat_digits: "\<forall>c \<in> set (dec_nat n). is_digit c"
proof (induction n rule: dec_nat.induct)
  case (1 n)
  then show ?case
    by (subst dec_nat.simps) (auto simp: digit_char_props)
qed

lemma dec_nat_nonempty: "dec_nat n \<noteq> []"
  by (subst dec_nat.simps) simp

lemma dec_nat_length: "n < 10 ^ k \<Longrightarrow> 0 < k \<Longrightarrow> length (dec_nat n) \<le> k"
proof (induction k arbitrary: n)
  case (Suc k)
  show ?case
  proof (cases "n < 10")
    case True
    then show ?thesis by (subst dec_nat.simps) simp
  next
    case False
    then have "0 < k"
      using Suc.prems by (cases k) auto
    moreover have "n div 10 < 10 ^ k"
      using Suc.prems by (simp add: div_less_iff_less_mult mult.commute)
    ultimately have "length (dec_nat (n div 10)) \<le> k"
      by (intro Suc.IH)
    then show ?thesis
      using False by (subst dec_nat.simps) simp
  qed
qed simp

lemma val_dec_append: "val_dec a (xs @ ys) = val_dec (val_dec a xs) ys"
  by (induction xs arbitrary: a) simp_all

lemma val_dec_dec_nat: "val_dec 0 (dec_nat n) = n"
proof (induction n rule: dec_nat.induct)
  case (1 n)
  show ?case
  proof (cases "n < 10")
    case True
    then show ?thesis by (simp add: dec_nat.simps digit_char_props)
  next
    case False
    then show ?thesis
      using 1 by (simp add: dec_nat.simps [of n] val_dec_append digit_char_props)
  qed
qed

end
