(* ===== verification/Kernel_Tasks.thy ===== *)
theory Kernel_Tasks
  imports Axion_Prelude
begin

text \<open>
  What the modules see of the kernel's task structures. A task is an address into a heap of
  \<open>task_struct\<close> records that hold the fields the sources read or write; NULL is \<^const>\<open>None\<close>.
  Lists the kernel threads through \<open>list_head\<close> fields (\<open>children\<close>, the thread group of
  \<open>signal\<close>) are lists of addresses in list order.

  Both scheduler modules keep their per-task data in the vendor-reserved words
  \<open>android_kabi_reserved1\<close> and following of the task's \<open>sched_entity\<close>. The record \<open>kabi\<close> holds
  four of these 64-bit words; a module's structure is a view on them. The locale \<open>kabi_view\<close>
  states the laws of such a view and derives what reading and writing through it does to the heap.
\<close>

type_synonym task = nat

record kabi =
  reserved1 :: u64
  reserved2 :: u64
  reserved3 :: u64
  reserved4 :: u64

record task_struct =
  policy :: u32
  flags :: u32
  static_prio :: s32
  real_parent :: "task option"
  group_leader :: "task option"
  children :: "task list"
  signal :: "task list option"
  comm :: string
  cpus_mask :: u64
  usage :: int
  kabi_area :: kabi

type_synonym heap = "task \<Rightarrow> task_struct"

text \<open>Constants of the kernel's headers (\<^verbatim>\<open>uapi/linux/sched.h\<close>, \<^verbatim>\<open>linux/sched.h\<close>,
  \<^verbatim>\<open>linux/sched/prio.h\<close>).\<close>

definition SCHED_NORMAL :: u32 where "SCHED_NORMAL = 0"
definition SCHED_BATCH :: u32 where "SCHED_BATCH = 3"
definition SCHED_IDLE :: u32 where "SCHED_IDLE = 5"
definition PF_IDLE :: u32 where "PF_IDLE = 0x2"
definition PF_EXITING :: u32 where "PF_EXITING = 0x4"
definition PF_KTHREAD :: u32 where "PF_KTHREAD = 0x200000"
definition CLONE_PARENT :: u64 where "CLONE_PARENT = 0x8000"
definition MAX_RT_PRIO :: s32 where "MAX_RT_PRIO = 100"

lemmas kernel_consts = SCHED_NORMAL_def SCHED_BATCH_def SCHED_IDLE_def PF_IDLE_def PF_EXITING_def
  PF_KTHREAD_def CLONE_PARENT_def MAX_RT_PRIO_def

text \<open>\<open>for_each_thread(p, t)\<close> walks the thread list of \<open>p->signal\<close>.\<close>

definition threads_of :: "heap \<Rightarrow> task \<Rightarrow> task list" where
  "threads_of h p = (case signal (h p) of None \<Rightarrow> [] | Some ts \<Rightarrow> ts)"

text \<open>Overwriting the reserved words of one task.\<close>

definition set_kabi :: "heap \<Rightarrow> task \<Rightarrow> kabi \<Rightarrow> heap" where
  "set_kabi h p k = h(p := (h p)\<lparr>kabi_area := k\<rparr>)"

lemma kabi_area_set_kabi [simp]:
  "kabi_area (set_kabi h p k q) = (if q = p then k else kabi_area (h q))"
  by (simp add: set_kabi_def)

text \<open>Everything but the reserved words.\<close>

definition same_task_but_kabi :: "heap \<Rightarrow> heap \<Rightarrow> bool" where
  "same_task_but_kabi h h' \<longleftrightarrow> (\<forall>q. h' q = (h q)\<lparr>kabi_area := kabi_area (h' q)\<rparr>)"

lemma same_task_but_kabi_refl [simp]: "same_task_but_kabi h h"
  by (simp add: same_task_but_kabi_def)

lemma same_task_but_kabi_set_kabi [simp]: "same_task_but_kabi h (set_kabi h p k)"
  by (simp add: same_task_but_kabi_def set_kabi_def)

lemma same_task_but_kabi_trans [trans]:
  assumes "same_task_but_kabi h h'" and "same_task_but_kabi h' h''"
  shows "same_task_but_kabi h h''"
  unfolding same_task_but_kabi_def
proof
  fix q
  have "h'' q = (h' q)\<lparr>kabi_area := kabi_area (h'' q)\<rparr>" and "h' q = (h q)\<lparr>kabi_area := kabi_area (h' q)\<rparr>"
    using assms by (simp_all add: same_task_but_kabi_def)
  then show "h'' q = (h q)\<lparr>kabi_area := kabi_area (h'' q)\<rparr>"
    by (metis task_struct.surjective task_struct.update_convs(11))
qed

lemma same_task_but_kabiD:
  assumes "same_task_but_kabi h h'"
  shows "policy (h' q) = policy (h q)" and "flags (h' q) = flags (h q)"
    and "static_prio (h' q) = static_prio (h q)" and "real_parent (h' q) = real_parent (h q)"
    and "group_leader (h' q) = group_leader (h q)" and "children (h' q) = children (h q)"
    and "signal (h' q) = signal (h q)" and "comm (h' q) = comm (h q)"
    and "cpus_mask (h' q) = cpus_mask (h q)" and "usage (h' q) = usage (h q)"
  using assms unfolding same_task_but_kabi_def
  by (metis task_struct.select_convs task_struct.surjective task_struct.update_convs(11))+

text \<open>A task at default priority with nothing stored in its reserved words, for worked examples.\<close>

definition example_task :: task_struct where
  "example_task = \<lparr>policy = 0, flags = 0, static_prio = 120, real_parent = None,
    group_leader = None, children = [], signal = Some [], comm = ''example'', cpus_mask = 255,
    usage = 1, kabi_area = \<lparr>reserved1 = 0, reserved2 = 0, reserved3 = 0, reserved4 = 0\<rparr>\<rparr>"

definition example_heap :: heap where
  "example_heap = (\<lambda>_. example_task)"

section \<open>Views on the reserved words\<close>

text \<open>
  A view reads a structure out of the reserved words and writes one back. The laws: what is
  written is read back, writing back what was read changes nothing, and a second write hides the
  first. They are what a pointer cast to a plain structure that fits the area provides.
\<close>

locale kabi_view =
  fixes load :: "kabi \<Rightarrow> 'c" and store :: "'c \<Rightarrow> kabi \<Rightarrow> kabi"
  assumes load_store: "load (store c k) = c"
    and store_load: "store (load k) k = k"
    and store_store: "store c (store d k) = store c k"
begin

lemma load_after_write:
  "load (kabi_area (set_kabi h p (store c (kabi_area (h p))) q)) =
    (if q = p then c else load (kabi_area (h q)))"
  by (simp add: load_store)

lemma write_back: "set_kabi h p (store (load (kabi_area (h p))) (kabi_area (h p))) = h"
  by (simp add: set_kabi_def store_load)

lemma write_write:
  "set_kabi (set_kabi h p (store c (kabi_area (h p)))) p
     (store d (kabi_area (set_kabi h p (store c (kabi_area (h p))) p))) =
   set_kabi h p (store d (kabi_area (h p)))"
  by (simp add: set_kabi_def store_store)

lemma store_inject: "store c k = store d k \<Longrightarrow> c = d"
  by (metis load_store)

end

end
