(* ===== verification/Bore_Context.thy ===== *)
theory Bore_Context
  imports Kernel_Tasks
begin

text \<open>
  The per-task data of the BORE scheduler module (\<^verbatim>\<open>bore_sched.h\<close>): the packed burst cache
  \<open>struct bore_bc\<close>, the context \<open>struct bore_ctx\<close> and its place in the reserved words of a
  task. Shown here: the bit fields of the cache read back what was packed, and the context is a
  lawful view of all four reserved words, so that contexts of different tasks are independent.
\<close>

section \<open>Definitions\<close>

definition MAX_BURST_PENALTY :: u32 where
  "MAX_BURST_PENALTY = push_bit 8 40 - 1"

definition BORE_BC_TIMESTAMP_SHIFT :: nat where "BORE_BC_TIMESTAMP_SHIFT = 16"
definition BURST_CACHE_SAMPLE_LIMIT :: u32 where "BURST_CACHE_SAMPLE_LIMIT = 63"
definition BURST_CACHE_SCAN_LIMIT :: u32 where "BURST_CACHE_SCAN_LIMIT = 126"
definition DEQUEUE_SLEEP :: s32 where "DEQUEUE_SLEEP = 0x01"

text \<open>The tunables (module parameters) and their defaults.\<close>

record bore_params =
  sched_bore :: u32
  sched_burst_inherit_type :: u32
  sched_burst_smoothness :: u32
  sched_burst_penalty_offset :: u32
  sched_burst_penalty_scale :: u32
  sched_burst_cache_lifetime :: u32

definition default_bore_params :: bore_params where
  "default_bore_params =
    \<lparr>sched_bore = 1, sched_burst_inherit_type = 2, sched_burst_smoothness = 1,
     sched_burst_penalty_offset = 24, sched_burst_penalty_scale = 1536,
     sched_burst_cache_lifetime = 75000000\<rparr>"

text \<open>
  \<open>struct bore_bc\<close>: a union of a 64-bit value with a 48-bit time stamp (low bits, as the
  little-endian targets lay bit fields out) and a 16-bit penalty.
\<close>

record bore_bc =
  bc_value :: u64

definition bc_timestamp :: "bore_bc \<Rightarrow> u64" where
  "bc_timestamp bc = take_bit 48 (bc_value bc)"

definition bc_penalty :: "bore_bc \<Rightarrow> u16" where
  "bc_penalty bc = ucast (drop_bit 48 (bc_value bc))"

text \<open>A designated initialiser of the two bit fields: each field is truncated to its width.\<close>

definition mk_bore_bc :: "u32 \<Rightarrow> u64 \<Rightarrow> bore_bc" where
  "mk_bore_bc penalty timestamp =
    \<lparr>bc_value = take_bit 48 timestamp OR push_bit 48 (ucast penalty)\<rparr>"

record bore_ctx =
  burst_time :: u64
  prev_penalty :: u16
  curr_penalty :: u16
  penalty :: u16
  stop_update :: u8
  futex_waiting :: u8
  subtree :: bore_bc
  grp :: bore_bc

definition zero_bore_ctx :: bore_ctx where
  "zero_bore_ctx =
    \<lparr>burst_time = 0, prev_penalty = 0, curr_penalty = 0, penalty = 0, stop_update = 0,
     futex_waiting = 0, subtree = \<lparr>bc_value = 0\<rparr>, grp = \<lparr>bc_value = 0\<rparr>\<rparr>"

text \<open>The five small fields share the second 64-bit word.\<close>

definition bore_word2 :: "u16 \<Rightarrow> u16 \<Rightarrow> u16 \<Rightarrow> u8 \<Rightarrow> u8 \<Rightarrow> u64" where
  "bore_word2 a b c d e =
    ucast a OR push_bit 16 (ucast b) OR push_bit 32 (ucast c) OR
    push_bit 48 (ucast d) OR push_bit 56 (ucast e)"

text \<open>The 32 bytes of \<open>struct bore_ctx\<close> in the four reserved words.\<close>

definition bore_load :: "kabi \<Rightarrow> bore_ctx" where
  "bore_load k =
    \<lparr>burst_time = reserved1 k,
     prev_penalty = ucast (reserved2 k),
     curr_penalty = ucast (drop_bit 16 (reserved2 k)),
     penalty = ucast (drop_bit 32 (reserved2 k)),
     stop_update = ucast (drop_bit 48 (reserved2 k)),
     futex_waiting = ucast (drop_bit 56 (reserved2 k)),
     subtree = \<lparr>bc_value = reserved3 k\<rparr>,
     grp = \<lparr>bc_value = reserved4 k\<rparr>\<rparr>"

definition bore_store :: "bore_ctx \<Rightarrow> kabi \<Rightarrow> kabi" where
  "bore_store c k =
    k\<lparr>reserved1 := burst_time c,
      reserved2 := bore_word2 (prev_penalty c) (curr_penalty c) (penalty c) (stop_update c)
        (futex_waiting c),
      reserved3 := bc_value (subtree c),
      reserved4 := bc_value (grp c)\<rparr>"

definition bore_get_ctx :: "heap \<Rightarrow> task \<Rightarrow> bore_ctx" where
  "bore_get_ctx h p = bore_load (kabi_area (h p))"

definition bore_put_ctx :: "heap \<Rightarrow> task \<Rightarrow> bore_ctx \<Rightarrow> heap" where
  "bore_put_ctx h p c = set_kabi h p (bore_store c (kabi_area (h p)))"

text \<open>
  A scheduling entity is a task unless groups are scheduled and it owns the queue of a group. The
  handlers do not ask: the hooks pass entities of tasks.
\<close>

definition bore_entity_is_task :: "bool \<Rightarrow> 'cfs_rq option \<Rightarrow> bool" where
  "bore_entity_is_task fair_group_sched my_q = (if fair_group_sched then my_q = None else True)"

definition bore_task_is_eligible :: "heap \<Rightarrow> task \<Rightarrow> bool" where
  "bore_task_is_eligible h p =
    (if policy (h p) \<noteq> SCHED_NORMAL \<and> policy (h p) \<noteq> SCHED_BATCH \<and> policy (h p) \<noteq> SCHED_IDLE then False
     else if flags (h p) AND PF_IDLE \<noteq> 0 then False
     else True)"

lemma zero_bore_ctx_simps [simp]:
  "burst_time zero_bore_ctx = 0" "prev_penalty zero_bore_ctx = 0" "curr_penalty zero_bore_ctx = 0"
  "penalty zero_bore_ctx = 0" "stop_update zero_bore_ctx = 0" "futex_waiting zero_bore_ctx = 0"
  "subtree zero_bore_ctx = \<lparr>bc_value = 0\<rparr>" "grp zero_bore_ctx = \<lparr>bc_value = 0\<rparr>"
  by (simp_all add: zero_bore_ctx_def)

lemma default_bore_params_simps [simp]:
  "sched_bore default_bore_params = 1" "sched_burst_inherit_type default_bore_params = 2"
  "sched_burst_smoothness default_bore_params = 1" "sched_burst_penalty_offset default_bore_params = 24"
  "sched_burst_penalty_scale default_bore_params = 1536"
  "sched_burst_cache_lifetime default_bore_params = 75000000"
  by (simp_all add: default_bore_params_def)

section \<open>The packed burst cache\<close>

lemma MAX_BURST_PENALTY_eq: "MAX_BURST_PENALTY = 10239"
  by (simp add: MAX_BURST_PENALTY_def push_bit_eq_mult)

lemma bc_penalty_mk: "bc_penalty (mk_bore_bc pen ts) = ucast pen"
  by (rule bit_word_eqI)
    (auto simp: bc_penalty_def mk_bore_bc_def bit_simps)

lemma bc_timestamp_mk: "bc_timestamp (mk_bore_bc pen ts) = take_bit 48 ts"
  by (rule bit_word_eqI)
    (auto simp: bc_timestamp_def mk_bore_bc_def bit_simps)

text \<open>A cache value is determined by its two fields.\<close>

lemma mk_bore_bc_collapse: "mk_bore_bc (ucast (bc_penalty bc)) (bc_timestamp bc) = bc"
proof -
  have "take_bit 48 (bc_value bc) OR push_bit 48 (ucast (ucast (ucast (drop_bit 48 (bc_value bc)) :: u16) :: u32)) = bc_value bc"
    by (rule bit_word_eqI) (auto simp: bit_simps)
  then show ?thesis
    by (simp add: mk_bore_bc_def bc_penalty_def bc_timestamp_def)
qed

section \<open>The context as a view of the reserved words\<close>

lemma bore_word2_split:
  "ucast (bore_word2 a b c d e) = a" "ucast (drop_bit 16 (bore_word2 a b c d e)) = b"
  "ucast (drop_bit 32 (bore_word2 a b c d e)) = c" "ucast (drop_bit 48 (bore_word2 a b c d e)) = d"
  "ucast (drop_bit 56 (bore_word2 a b c d e)) = e"
  by (rule bit_word_eqI; auto simp: bore_word2_def bit_simps dest: bit_imp_le_length)+

lemma bore_word2_join:
  "bore_word2 (ucast w) (ucast (drop_bit 16 w)) (ucast (drop_bit 32 w)) (ucast (drop_bit 48 w))
    (ucast (drop_bit 56 w)) = w"
proof (rule bit_word_eqI)
  fix n
  assume "n < LENGTH(64)"
  then consider "n < 16" | "16 \<le> n" "n < 32" | "32 \<le> n" "n < 48" | "48 \<le> n" "n < 56" | "56 \<le> n" "n < 64"
    by fastforce
  then show "bit (bore_word2 (ucast w) (ucast (drop_bit 16 w)) (ucast (drop_bit 32 w))
      (ucast (drop_bit 48 w)) (ucast (drop_bit 56 w))) n \<longleftrightarrow> bit w n"
    by cases (simp_all add: bore_word2_def bit_simps less_diff_conv2)
qed

interpretation bore_view: kabi_view bore_load bore_store
proof unfold_locales
  show "bore_load (bore_store c k) = c" for c k
    by (cases c) (simp add: bore_load_def bore_store_def bore_word2_split)
  show "bore_store (bore_load k) k = k" for k
    by (simp add: bore_load_def bore_store_def bore_word2_join)
  show "bore_store c (bore_store d k) = bore_store c k" for c d k
    by (simp add: bore_store_def)
qed

lemma bore_get_put [simp]:
  "bore_get_ctx (bore_put_ctx h p c) q = (if q = p then c else bore_get_ctx h q)"
  unfolding bore_get_ctx_def bore_put_ctx_def by (rule bore_view.load_after_write)

lemma bore_put_get [simp]: "bore_put_ctx h p (bore_get_ctx h p) = h"
  unfolding bore_get_ctx_def bore_put_ctx_def by (rule bore_view.write_back)

lemma bore_put_put [simp]: "bore_put_ctx (bore_put_ctx h p c) p d = bore_put_ctx h p d"
  unfolding bore_put_ctx_def by (rule bore_view.write_write)

lemma bore_put_frame [simp]: "same_task_but_kabi h (bore_put_ctx h p c)"
  by (simp add: bore_put_ctx_def)

lemmas bore_put_fields [simp] = same_task_but_kabiD [OF bore_put_frame]

lemma bore_eligible_put [simp]: "bore_task_is_eligible (bore_put_ctx h p c) = bore_task_is_eligible h"
  by (simp add: bore_task_is_eligible_def fun_eq_iff)

lemma zero_bore_ctx_load: "bore_load \<lparr>reserved1 = 0, reserved2 = 0, reserved3 = 0, reserved4 = 0\<rparr> = zero_bore_ctx"
  by (simp add: bore_load_def zero_bore_ctx_def)

lemma bore_get_ctx_example [simp]: "bore_get_ctx example_heap p = zero_bore_ctx"
  by (simp add: bore_get_ctx_def example_heap_def example_task_def zero_bore_ctx_load)

end
