(* ===== verification/Bore_Penalty.thy ===== *)
theory Bore_Penalty
  imports Bore_Context
begin

text \<open>
  The integer arithmetic of \<^verbatim>\<open>bore_sched.h\<close>: the fixed-point logarithm, the burst penalty and
  the smoothing of penalties across bursts. The lemmas give each routine its mathematical meaning:
  the logarithm is the piecewise linear interpolation of \<open>log2 v + 1\<close> with eight fractional bits,
  the penalty is that logarithm above a tolerance, scaled and capped, and smoothing moves the old
  value towards a larger new one by the rounded-up \<open>2 ^ shift\<close>-th part of the distance.
\<close>

section \<open>Definitions\<close>

text \<open>\<open>__builtin_clzll\<close>: the number of zero bits above the highest one bit.\<close>

fun clz_from :: "u64 \<Rightarrow> nat \<Rightarrow> nat" where
  "clz_from v 0 = 0"
| "clz_from v (Suc n) = (if bit v n then 0 else Suc (clz_from v n))"

definition clzll :: "u64 \<Rightarrow> nat" where
  "clzll v = clz_from v 64"

text \<open>The shift amounts are in range for \<open>1 \<le> fp \<le> 24\<close>; the only caller passes 8.\<close>

definition log2p1_u64_u32fp :: "u64 \<Rightarrow> u8 \<Rightarrow> u32" where
  "log2p1_u64_u32fp v fp =
    (if v = 0 then 0
     else let clz = clzll v;
              exponent = 64 - clz;
              mantissa = ucast (drop_bit (64 - unat fp) (push_bit 1 (push_bit clz v))) :: u32
          in push_bit (unat fp) (of_nat exponent) OR mantissa)"

definition calc_burst_penalty :: "bore_params \<Rightarrow> u64 \<Rightarrow> u32" where
  "calc_burst_penalty P burst =
    (let greed = log2p1_u64_u32fp burst 8;
         tolerance = push_bit 8 (sched_burst_penalty_offset P);
         diff = greed - tolerance :: s32;
         pen = diff AND NOT (signed_drop_bit 31 diff);
         scaled_penalty = drop_bit 10 (pen * sched_burst_penalty_scale P);
         overflow = scaled_penalty - MAX_BURST_PENALTY :: s32
     in scaled_penalty - (overflow AND NOT (signed_drop_bit 31 overflow)))"

text \<open>
  A shift by the width of the operand or more has no defined result in C, so \<open>binary_smooth\<close>
  is partial: \<^const>\<open>None\<close> when the smoothness tunable is 32 or more.
\<close>

definition binary_smooth :: "bore_params \<Rightarrow> u32 \<Rightarrow> u32 \<Rightarrow> u32 option" where
  "binary_smooth P new_val old_val =
    (let is_growing = of_bool (new_val > old_val) :: u32;
         increment = (new_val - old_val) * is_growing;
         shift = sched_burst_smoothness P
     in if shift \<ge> 32 then None
        else let smoothed = old_val + drop_bit (unat shift) (increment + push_bit (unat shift) 1 - 1)
             in Some ((new_val AND NOT (- is_growing)) OR (smoothed AND - is_growing)))"

text \<open>
  Settings of the tunables for which no intermediate product of \<open>calc_burst_penalty\<close> wraps and
  the smoothing shift is defined. The defaults are well inside.
\<close>

definition sane_tunables :: "bore_params \<Rightarrow> bool" where
  "sane_tunables P \<longleftrightarrow>
    unat (sched_burst_penalty_offset P) < 8388608 \<and>
    unat (sched_burst_penalty_scale P) \<le> 258126 \<and>
    unat (sched_burst_smoothness P) < 32"

text \<open>The penalty as a formula over the natural numbers.\<close>

definition penalty_of_greed :: "bore_params \<Rightarrow> nat \<Rightarrow> nat" where
  "penalty_of_greed P greed =
    min 10239 (((greed - 256 * unat (sched_burst_penalty_offset P)) *
      unat (sched_burst_penalty_scale P)) div 1024)"

text \<open>
  The reference for the fixed-point logarithm: \<open>256\<close> times the linear interpolation of
  \<open>log2 v + 1\<close> between powers of two, rounded down.
\<close>

fun ilog2 :: "nat \<Rightarrow> nat" where
  "ilog2 n = (if n < 2 then 0 else Suc (ilog2 (n div 2)))"

declare ilog2.simps [simp del]

definition greed_spec :: "nat \<Rightarrow> nat" where
  "greed_spec v = (if v = 0 then 0 else 256 * Suc (ilog2 v) + ((v - 2 ^ ilog2 v) * 256) div 2 ^ ilog2 v)"

text \<open>The reference for smoothing.\<close>

definition smooth_spec :: "nat \<Rightarrow> nat \<Rightarrow> nat \<Rightarrow> nat" where
  "smooth_spec s new old = (if new \<le> old then new else old + ((new - old) + 2 ^ s - 1) div 2 ^ s)"

section \<open>The fixed-point logarithm\<close>

lemma clz_from_le: "clz_from v n \<le> n"
  by (induction n) auto

lemma clz_from_zero_bits: "n - clz_from v n \<le> i \<Longrightarrow> i < n \<Longrightarrow> \<not> bit v i"
proof (induction n)
  case (Suc n)
  then show ?case
    using clz_from_le [of v n] by (cases "i = n") (auto split: if_splits simp: Suc_diff_le)
qed simp

lemma clz_from_top_bit: "clz_from v n < n \<Longrightarrow> bit v (n - Suc (clz_from v n))"
  by (induction n) (auto split: if_splits)

lemma clz_from_eq:
  assumes "bit v e" and "\<And>i. e < i \<Longrightarrow> i < n \<Longrightarrow> \<not> bit v i" and "e < n"
  shows "clz_from v n = n - Suc e"
  using assms
proof (induction n)
  case (Suc n)
  show ?case
  proof (cases "e = n")
    case False
    then have "\<not> bit v n" and "e < n"
      using Suc.prems by auto
    moreover have "clz_from v n = n - Suc e"
      using Suc.prems \<open>e < n\<close> by (intro Suc.IH) auto
    ultimately show ?thesis
      by (simp add: Suc_diff_Suc)
  qed (use Suc.prems in simp)
qed simp

lemma bit_unat_range:
  fixes v :: u64
  assumes "2 ^ e \<le> unat v" and "unat v < 2 ^ Suc e"
  shows "bit v e" and "e < i \<Longrightarrow> \<not> bit v i" and "e < 64"
proof -
  have bit_v: "bit v i \<longleftrightarrow> odd (unat v div 2 ^ i)" for i
    using bit_unsigned_iff [where 'a = nat, of v i] by (simp add: bit_iff_odd [of "unat v"])
  have "unat v div 2 ^ e = 1"
    using assms by (simp add: div_nat_eqI)
  then show "bit v e"
    by (simp add: bit_v)
  then show "e < 64"
    using bit_imp_le_length [of v e] by simp
  show "\<not> bit v i" if "e < i"
  proof -
    have "(2 :: nat) ^ Suc e \<le> 2 ^ i"
      using that by (intro power_increasing) simp_all
    then show ?thesis
      using assms(2) by (simp add: bit_v)
  qed
qed

lemma clzll_eq:
  assumes "2 ^ e \<le> unat v" and "unat v < 2 ^ Suc e"
  shows "clzll v = 63 - e" and "e < 64"
proof -
  note * = bit_unat_range [OF assms]
  show "e < 64" by (rule *)
  show "clzll v = 63 - e"
    unfolding clzll_def using clz_from_eq [OF *(1), of 64] *(2,3) by simp
qed

lemma nat_push_or:
  assumes "m < 2 ^ k"
  shows "push_bit k a OR m = a * 2 ^ k + (m :: nat)"
proof -
  have "push_bit k a AND take_bit k m = 0"
    by (rule bit_eqI) (auto simp: bit_simps)
  then have "push_bit k a AND m = 0"
    using assms by (simp add: take_bit_nat_eq_self)
  then show ?thesis
    by (simp add: disjunctive_add_eq_or [symmetric] push_bit_eq_mult)
qed

text \<open>The bits below the leading one, moved to the top of the word and cut to eight.\<close>

lemma push_bit_twice: "e < 64 \<Longrightarrow> push_bit 1 (push_bit (63 - e) v) = push_bit (64 - e) (v :: u64)"
  by (subst push_bit_push_bit) (rule arg_cong [where f = "\<lambda>n. push_bit n v"], simp)

lemma mantissa_eq:
  fixes v :: u64
  assumes "2 ^ e \<le> unat v" and "unat v < 2 ^ Suc e"
  shows "unat (drop_bit 56 (push_bit (64 - e) v)) = ((unat v - 2 ^ e) * 256) div 2 ^ e"
proof -
  let ?x = "unat v - 2 ^ e"
  have e: "e < 64"
    by (rule clzll_eq [OF assms])
  have "unat (push_bit (64 - e) v) = (unat v * 2 ^ (64 - e)) mod 2 ^ 64"
    by (simp only: unsigned_push_bit_eq) (simp add: take_bit_eq_mod push_bit_eq_mult)
  also have "(2 :: nat) ^ 64 = 2 ^ e * 2 ^ (64 - e)"
    using e by (simp flip: power_add)
  also have "(unat v * 2 ^ (64 - e)) mod (2 ^ e * 2 ^ (64 - e)) = (unat v mod 2 ^ e) * 2 ^ (64 - e)"
    by (simp add: mod_mult_mult2)
  also have "unat v mod 2 ^ e = ?x"
    using assms by (simp add: mod_if le_mod_geq)
  finally have "unat (drop_bit 56 (push_bit (64 - e) v)) = (?x * 2 ^ (64 - e)) div 2 ^ 56"
    by (simp only: unat_drop_bit_eq) (simp add: drop_bit_eq_div)
  also have "\<dots> = (?x * 2 ^ (64 - e) * 2 ^ e) div (2 ^ 56 * 2 ^ e)"
    by (simp add: div_mult_mult2)
  also have "?x * 2 ^ (64 - e) * 2 ^ e = ?x * 2 ^ 64"
    using e by (simp add: mult.assoc flip: power_add)
  also have "?x * 2 ^ 64 = (?x * 256) * 2 ^ 56"
    by simp
  also have "((?x * 256) * 2 ^ 56) div (2 ^ 56 * 2 ^ e) = ((?x * 256) * 2 ^ 56) div (2 ^ e * 2 ^ 56)"
    by (simp only: mult.commute [of "2 ^ 56" "2 ^ e"])
  also have "\<dots> = (?x * 256) div 2 ^ e"
    by (rule div_mult_mult2) simp
  finally show ?thesis .
qed

lemma log2p1_eq:
  assumes "2 ^ e \<le> unat v" and "unat v < 2 ^ Suc e"
  shows "unat (log2p1_u64_u32fp v 8) = 256 * Suc e + ((unat v - 2 ^ e) * 256) div 2 ^ e"
proof -
  let ?m = "drop_bit 56 (push_bit (64 - e) v)"
  have v: "v \<noteq> 0"
    using assms by auto
  have e: "e < 64" and clz: "clzll v = 63 - e"
    using clzll_eq [OF assms] by auto
  have "(unat v - 2 ^ e) * 256 < 256 * 2 ^ e"
    using assms by simp
  then have m: "unat ?m < 256"
    by (simp add: mantissa_eq [OF assms] less_mult_imp_div_less)
  then have "unat (ucast ?m :: u32) = unat ?m"
    by (simp add: unsigned_ucast_eq take_bit_nat_eq_self)
  moreover have "unat (push_bit 8 (of_nat (Suc e)) :: u32) = push_bit 8 (Suc e)"
    using e by (simp only: unsigned_push_bit_eq unsigned_of_nat)
      (simp add: take_bit_nat_eq_self push_bit_eq_mult)
  moreover have "64 - clzll v = Suc e"
    using e clz by simp
  moreover have "log2p1_u64_u32fp v 8 = push_bit 8 (of_nat (64 - clzll v)) OR ucast ?m"
    using v e by (simp only: log2p1_u64_u32fp_def clz push_bit_twice Let_def if_False) simp
  moreover have "push_bit 8 (Suc e) OR unat ?m = 256 * Suc e + unat ?m"
    using nat_push_or [of "unat ?m" 8 "Suc e"] m by (simp del: push_bit_of_Suc_0)
  ultimately show ?thesis
    by (simp only: unsigned_or_eq mantissa_eq [OF assms])
qed

lemma log2p1_zero [simp]: "log2p1_u64_u32fp 0 fp = 0"
  by (simp add: log2p1_u64_u32fp_def)

lemma ilog2_bounds: "0 < n \<Longrightarrow> 2 ^ ilog2 n \<le> n \<and> n < 2 ^ Suc (ilog2 n)"
proof (induction n rule: ilog2.induct)
  case (1 n)
  show ?case
  proof (cases "n < 2")
    case True
    then show ?thesis using "1.prems" by (simp add: ilog2.simps [of n])
  next
    case False
    then have "2 ^ ilog2 (n div 2) \<le> n div 2 \<and> n div 2 < 2 ^ Suc (ilog2 (n div 2))"
      by (intro "1.IH") simp_all
    with False show ?thesis by (auto simp: ilog2.simps [of n])
  qed
qed

lemma log2p1_spec: "unat (log2p1_u64_u32fp v 8) = greed_spec (unat v)"
proof (cases "v = 0")
  case False
  then have "0 < unat v"
    by (simp add: unat_gt_0)
  then show ?thesis
    using log2p1_eq [of "ilog2 (unat v)" v] ilog2_bounds [of "unat v"] by (simp add: greed_spec_def)
qed (simp add: greed_spec_def)

text \<open>Every non-zero value has an exponent.\<close>

lemma obtain_exponent:
  fixes v :: u64
  assumes "v \<noteq> 0"
  obtains e where "2 ^ e \<le> unat v" and "unat v < 2 ^ Suc e"
proof -
  have "0 < unat v"
    using assms by (simp add: unat_gt_0)
  then show ?thesis
    using ex_power_ivl1 [of 2 "unat v"] that by auto
qed

lemma log2p1_bound: "unat (log2p1_u64_u32fp v 8) \<le> 16639"
proof (cases "v = 0")
  case False
  then obtain e where e: "2 ^ e \<le> unat v" "unat v < 2 ^ Suc e"
    by (rule obtain_exponent)
  have "(unat v - 2 ^ e) * 256 < 256 * 2 ^ e"
    using e by simp
  then have "((unat v - 2 ^ e) * 256) div 2 ^ e < 256"
    by (rule less_mult_imp_div_less)
  moreover have "256 * Suc e \<le> 16384"
    using clzll_eq(2) [OF e] by simp
  ultimately show ?thesis
    by (simp only: log2p1_eq [OF e])
qed simp

text \<open>The logarithm grows with the burst time.\<close>

lemma ilog2_mono:
  assumes "0 < v" and "v \<le> w"
  shows "ilog2 v \<le> ilog2 w"
proof (rule ccontr)
  assume "\<not> ilog2 v \<le> ilog2 w"
  then have "(2 :: nat) ^ Suc (ilog2 w) \<le> 2 ^ ilog2 v"
    by (intro power_increasing) auto
  then show False
    using ilog2_bounds [of v] ilog2_bounds [of w] assms by linarith
qed

lemma greed_spec_mono:
  assumes "v \<le> w"
  shows "greed_spec v \<le> greed_spec w"
proof (cases "v = 0")
  case False
  let ?e = "ilog2 v" and ?f = "ilog2 w"
  have pos: "0 < v" "0 < w"
    using False assms by auto
  note v = ilog2_bounds [OF pos(1)]
  show ?thesis
  proof (cases "?e = ?f")
    case True
    have "(v - 2 ^ ?f) * 256 div 2 ^ ?f \<le> (w - 2 ^ ?f) * 256 div 2 ^ ?f"
      using assms by (intro div_le_mono mult_le_mono1 diff_le_mono)
    then show ?thesis
      using True pos by (simp add: greed_spec_def)
  next
    case False
    then have "?e < ?f"
      using ilog2_mono [OF pos(1) assms] by simp
    moreover have "(v - 2 ^ ?e) * 256 div 2 ^ ?e < 256"
      using v by (intro less_mult_imp_div_less) auto
    ultimately show ?thesis
      using pos by (simp add: greed_spec_def)
  qed
qed (simp add: greed_spec_def)

lemma log2p1_mono: "v \<le> w \<Longrightarrow> unat (log2p1_u64_u32fp v 8) \<le> unat (log2p1_u64_u32fp w 8)"
  by (simp add: log2p1_spec greed_spec_mono word_le_nat_alt)

section \<open>The burst penalty\<close>

text \<open>The cap is exact for every setting of the tunables.\<close>

lemma cap_penalty:
  fixes x :: u32
  defines "overflow \<equiv> drop_bit 10 x - MAX_BURST_PENALTY"
  shows "unat (drop_bit 10 x - (overflow AND NOT (signed_drop_bit 31 overflow))) = min (unat (drop_bit 10 x)) 10239"
proof -
  have "unat (drop_bit 10 x) = unat x div 1024"
    by (simp only: unat_drop_bit_eq) (simp add: drop_bit_eq_div)
  then have "unat (drop_bit 10 x) < 2147483648"
    using unat_u32_lt [of x] by linarith
  then have small: "unat (drop_bit 10 x) < 2 ^ 31"
    by simp
  have s: "sint overflow = int (unat (drop_bit 10 x)) - 10239"
    unfolding overflow_def using sint_diff_small [OF small, of MAX_BURST_PENALTY]
    by (simp only: MAX_BURST_PENALTY_eq) simp
  show ?thesis
  proof (cases "sint overflow < 0")
    case True
    then show ?thesis
      using s by (simp only: relu_s32) simp
  next
    case False
    then have "drop_bit 10 x - (overflow AND NOT (signed_drop_bit 31 overflow)) = 10239"
      by (simp only: relu_s32) (simp add: overflow_def MAX_BURST_PENALTY_eq)
    then show ?thesis
      using False s by simp
  qed
qed

lemma calc_burst_penalty_bound: "unat (calc_burst_penalty P t) \<le> 10239"
  unfolding calc_burst_penalty_def Let_def by (simp only: cap_penalty min.cobounded2)

lemma calc_burst_penalty_greed:
  assumes "sane_tunables P"
  shows "unat (calc_burst_penalty P t) = penalty_of_greed P (unat (log2p1_u64_u32fp t 8))"
proof -
  let ?g = "log2p1_u64_u32fp t 8"
  let ?tol = "push_bit 8 (sched_burst_penalty_offset P)"
  let ?diff = "?g - ?tol"
  let ?pen = "?diff AND NOT (signed_drop_bit 31 ?diff)"
  have g: "unat ?g \<le> 16639"
    by (rule log2p1_bound)
  have tol: "unat ?tol = 256 * unat (sched_burst_penalty_offset P)"
    using assms by (simp only: unsigned_push_bit_eq)
      (simp add: sane_tunables_def take_bit_nat_eq_self push_bit_eq_mult)
  have diff: "sint ?diff = int (unat ?g) - int (unat ?tol)"
    using g tol assms by (intro sint_diff_small) (simp_all add: sane_tunables_def)
  have pen: "unat ?pen = unat ?g - unat ?tol"
  proof (cases "sint ?diff < 0")
    case True
    then have "?pen = 0"
      by (simp only: relu_s32 if_True)
    then show ?thesis
      using True diff by simp
  next
    case False
    then have "?pen = ?diff" and "?tol \<le> ?g"
      using diff by (simp_all only: relu_s32 if_False) (simp add: word_le_nat_alt)
    then show ?thesis
      by (simp only: unat_sub)
  qed
  have "unat ?pen * unat (sched_burst_penalty_scale P) \<le> 16639 * 258126"
    using g assms by (intro mult_le_mono) (simp_all only: pen sane_tunables_def diff_le_mono2 le_diff_conv trans_le_add1)
  then have "unat (?pen * sched_burst_penalty_scale P) = unat ?pen * unat (sched_burst_penalty_scale P)"
    by (intro unat_mult_lem [THEN iffD1]) simp
  then have "unat (drop_bit 10 (?pen * sched_burst_penalty_scale P)) =
      (unat ?pen * unat (sched_burst_penalty_scale P)) div 1024"
    by (simp only: unat_drop_bit_eq) (simp add: drop_bit_eq_div)
  then show ?thesis
    unfolding calc_burst_penalty_def Let_def penalty_of_greed_def
    by (simp only: cap_penalty pen tol min.commute)
qed

lemma penalty_of_greed_mono: "g \<le> g' \<Longrightarrow> penalty_of_greed P g \<le> penalty_of_greed P g'"
  unfolding penalty_of_greed_def by (intro min.mono div_le_mono mult_le_mono diff_le_mono) simp_all

lemma calc_burst_penalty_mono:
  assumes "sane_tunables P" and "t \<le> u"
  shows "unat (calc_burst_penalty P t) \<le> unat (calc_burst_penalty P u)"
  by (simp only: calc_burst_penalty_greed [OF assms(1)] penalty_of_greed_mono log2p1_mono [OF assms(2)])

lemma calc_burst_penalty_zero: "sane_tunables P \<Longrightarrow> calc_burst_penalty P 0 = 0"
  using calc_burst_penalty_greed [of P 0] by (simp add: penalty_of_greed_def unsigned_eq_0_iff)

section \<open>Smoothing\<close>

lemma ceil_div_le: "0 < (d :: nat) \<Longrightarrow> (d + 2 ^ s - 1) div 2 ^ s \<le> d"
proof -
  assume "0 < d"
  moreover have "d * 1 \<le> d * 2 ^ s"
    by (intro mult_le_mono2) simp
  ultimately have "d + 2 ^ s - 1 < Suc d * 2 ^ s"
    unfolding mult_Suc by linarith
  then have "(d + 2 ^ s - 1) div 2 ^ s < Suc d"
    by (simp add: less_mult_imp_div_less)
  then show ?thesis by simp
qed

lemma ceil_div_pos: "0 < (d :: nat) \<Longrightarrow> 0 < (d + 2 ^ s - 1) div 2 ^ s"
  by (simp add: div_greater_zero_iff)

lemma binary_smooth_cases:
  assumes "unat (sched_burst_smoothness P) < 32"
  shows "binary_smooth P new old = Some (if old < new then
      old + drop_bit (unat (sched_burst_smoothness P)) (new - old + push_bit (unat (sched_burst_smoothness P)) 1 - 1)
    else new)"
proof -
  have "\<not> 32 \<le> sched_burst_smoothness P"
    using assms by (simp add: word_le_nat_alt)
  then show ?thesis
    by (simp only: binary_smooth_def Let_def if_False) (simp del: push_bit_of_1)
qed

lemma binary_smooth_undefined:
  "32 \<le> unat (sched_burst_smoothness P) \<Longrightarrow> binary_smooth P new old = None"
  by (simp add: binary_smooth_def Let_def word_le_nat_alt)

text \<open>The distance is divided by \<open>2 ^ shift\<close>, rounding up.\<close>

lemma binary_smooth_value:
  assumes "unat (sched_burst_smoothness P) < 32" and "unat new < 2 ^ 31" and "old < new"
  shows "\<exists>r. binary_smooth P new old = Some r \<and>
    unat r = unat old + ((unat new - unat old) + 2 ^ unat (sched_burst_smoothness P) - 1)
      div 2 ^ unat (sched_burst_smoothness P)"
proof -
  let ?s = "unat (sched_burst_smoothness P)"
  let ?d = "unat new - unat old"
  have d: "unat (new - old) = ?d"
    using assms(3) by (simp add: unat_sub less_imp_le)
  have one: "unat (push_bit ?s (1 :: u32)) = 2 ^ ?s"
    using assms(1) by (simp only: unsigned_push_bit_eq)
      (simp add: push_bit_eq_mult take_bit_nat_eq_self power_strict_increasing)
  have pow: "(2 :: nat) ^ ?s \<le> 2 ^ 31"
    using assms(1) by (intro power_increasing) simp_all
  have sum: "unat (new - old + push_bit ?s 1) = ?d + 2 ^ ?s"
    using pow assms(2) by (subst unat_add_lem [THEN iffD1]) (simp_all only: d one, simp)
  have "1 \<le> new - old + push_bit ?s 1"
    by (simp only: word_le_nat_alt sum) (simp add: Suc_leI)
  then have sum1: "unat (new - old + push_bit ?s 1 - 1) = ?d + 2 ^ ?s - 1"
    by (simp only: unat_sub sum) simp
  define q where "q = (?d + 2 ^ ?s - 1) div 2 ^ ?s"
  have q: "unat (drop_bit ?s (new - old + push_bit ?s 1 - 1)) = q"
    by (simp only: unat_drop_bit_eq sum1 q_def) (simp only: drop_bit_eq_div)
  have "0 < ?d"
    using assms(3) by (simp add: word_less_nat_alt)
  then have "q \<le> ?d"
    unfolding q_def by (rule ceil_div_le)
  then have "unat old + q < 2 ^ LENGTH(32)"
    using assms(2,3) by (simp add: word_less_nat_alt)
  then have "unat (old + drop_bit ?s (new - old + push_bit ?s 1 - 1)) = unat old + q"
    by (subst unat_add_lem [THEN iffD1]) (simp_all only: q)
  then show ?thesis
    using assms(3) by (simp only: binary_smooth_cases [OF assms(1)] if_True q_def) blast
qed

lemma binary_smooth_between:
  assumes "unat (sched_burst_smoothness P) < 32" and "unat new < 2 ^ 31"
  shows "\<exists>r. binary_smooth P new old = Some r \<and> unat r \<le> unat new \<and>
    (old < new \<longrightarrow> unat old < unat r) \<and> (new \<le> old \<longrightarrow> r = new)"
proof (cases "old < new")
  case True
  then obtain r where r: "binary_smooth P new old = Some r" "unat r = unat old +
      ((unat new - unat old) + 2 ^ unat (sched_burst_smoothness P) - 1) div 2 ^ unat (sched_burst_smoothness P)"
    using binary_smooth_value [OF assms] by blast
  have d: "0 < unat new - unat old"
    using True by (simp add: word_less_nat_alt)
  define q where "q = ((unat new - unat old) + 2 ^ unat (sched_burst_smoothness P) - 1) div
      2 ^ unat (sched_burst_smoothness P)"
  have "0 < q" and "q \<le> unat new - unat old"
    unfolding q_def using ceil_div_pos [OF d] ceil_div_le [OF d] by auto
  moreover have "unat r = unat old + q"
    using r(2) by (simp only: q_def)
  ultimately show ?thesis
    using r(1) True d by (intro exI [of _ r]) auto
qed (simp add: binary_smooth_cases [OF assms(1)])

lemma binary_smooth_spec:
  assumes "unat (sched_burst_smoothness P) < 32" and "unat new < 2 ^ 31"
  shows "map_option unat (binary_smooth P new old) =
    Some (smooth_spec (unat (sched_burst_smoothness P)) (unat new) (unat old))"
proof (cases "old < new")
  case True
  then show ?thesis
    using binary_smooth_value [OF assms True] by (auto simp: smooth_spec_def word_less_nat_alt)
qed (simp add: binary_smooth_cases [OF assms(1)] smooth_spec_def word_less_nat_alt)

text \<open>The smoothing applied at the end of \<open>n\<close> successive bursts with the same raw penalty.\<close>

fun smooth_n :: "bore_params \<Rightarrow> u32 \<Rightarrow> nat \<Rightarrow> u32 \<Rightarrow> u32 option" where
  "smooth_n P new 0 old = Some old"
| "smooth_n P new (Suc n) old = Option.bind (binary_smooth P new old) (smooth_n P new n)"

lemma smooth_n_reaches:
  assumes "unat (sched_burst_smoothness P) < 32" and "unat new < 2 ^ 31"
    and "unat new - unat old \<le> n"  and "0 < n"
  shows "smooth_n P new n old = Some new"
  using assms(3,4)
proof (induction n arbitrary: old)
  case (Suc n)
  obtain r where r: "binary_smooth P new old = Some r" "unat r \<le> unat new"
      "old < new \<longrightarrow> unat old < unat r" "new \<le> old \<longrightarrow> r = new"
    using binary_smooth_between [OF assms(1,2)] by blast
  show ?case
  proof (cases n)
    case 0
    have "r = new"
    proof (cases "old < new")
      case True
      then have "unat r = unat new"
        using r Suc.prems 0 by (simp add: word_less_nat_alt)
      then show ?thesis by (simp add: word_unat_eq_iff)
    qed (use r in simp)
    with r 0 show ?thesis by simp
  next
    case (Suc m)
    have "unat new - unat r \<le> n"
    proof (cases "old < new")
      case True
      then show ?thesis
        using r Suc.prems by linarith
    qed (use r in simp)
    then have "smooth_n P new n r = Some new"
      using Suc by (intro Suc.IH) simp_all
    then show ?thesis
      using r by simp
  qed
qed simp

lemma sane_default [simp]: "sane_tunables default_bore_params"
  by (simp add: sane_tunables_def default_bore_params_def)

section \<open>Properties\<close>

text \<open>
  C18: the branch-free fixed-point logarithm computes, for every 64-bit run time, the
  linear interpolation of \<open>256 * (log2 v + 1)\<close> between powers of two.
\<close>

theorem log2p1_interpolates: "unat (log2p1_u64_u32fp v 8) = greed_spec (unat v)"
  by (rule log2p1_spec)

text \<open>
  C19: with tunables in range the penalty is the interpolated logarithm above the tolerance, scaled
  and capped, and a longer burst never has a smaller penalty.
\<close>

theorem calc_burst_penalty_formula:
  assumes "sane_tunables P"
  shows "unat (calc_burst_penalty P t) = penalty_of_greed P (greed_spec (unat t)) \<and>
    (t \<le> u \<longrightarrow> calc_burst_penalty P t \<le> calc_burst_penalty P u)"
  using calc_burst_penalty_greed [OF assms, of t] calc_burst_penalty_mono [OF assms, of t u]
  by (simp add: log2p1_spec word_le_nat_alt)

theorem calc_burst_penalty_formula_witness:
  "sane_tunables default_bore_params \<and> (1000000 :: u64) \<le> 2000000000 \<and>
   unat (calc_burst_penalty default_bore_params 1000000) =
     penalty_of_greed default_bore_params (greed_spec (unat (1000000 :: u64))) \<and>
   calc_burst_penalty default_bore_params 1000000 \<le> calc_burst_penalty default_bore_params 2000000000"
  using calc_burst_penalty_formula [OF sane_default, of 1000000 2000000000] by simp

text \<open>
  C23: bursts of the same penalty are learned. If every burst has the raw penalty \<open>new\<close>, the
  smoothed value equals it after at most as many bursts as the two were apart, from any start.
\<close>

theorem smoothing_converges:
  assumes "unat (sched_burst_smoothness P) < 32" and "unat new < 2 ^ 31"
    and "unat new - unat old \<le> n" and "0 < n"
  shows "smooth_n P new n old = Some new"
  using assms by (rule smooth_n_reaches)

theorem smoothing_converges_witness: "smooth_n default_bore_params 12 12 0 = Some 12"
  using smoothing_converges [of default_bore_params 12 0 12] by (simp add: default_bore_params_def)

end
