(* ===== verification/Bore_Cache.thy ===== *)
theory Bore_Cache
  imports Bore_Penalty
begin

text \<open>
  The burst caches of \<^verbatim>\<open>bore_sched_main.c\<close>: the reciprocal table, the time-stamped cache word
  and the three ways a new task inherits a penalty (from its parent, from an ancestor hub, from
  its thread group). The lemmas show that the multiplication by a table entry is an exact integer
  division on every total the scans can produce, that the scan loops compute the mean over a
  bounded sample, that a cache written at one moment is read back until its lifetime is over,
  and that the walks up and down the task tree return. The locale \<open>penalty_source\<close> is the
  contract the fork handler relies on.
\<close>

section \<open>Definitions\<close>

text \<open>The module's global variables.\<close>

record bore_state =
  params :: bore_params
  bore_reciprocal_lut :: "u32 list"
  bore_hooks_active :: bool
  bore_sysctl_header :: bool
  bore_proc_entry :: bool

text \<open>The loop of \<open>init_bore_reciprocal_lut\<close>, from index \<open>i\<close> on.\<close>

function lut_loop :: "nat \<Rightarrow> u32 list \<Rightarrow> u32 list" where
  "lut_loop i lut =
    (if i \<le> 63 then lut_loop (Suc i) (lut[i := ucast ((0xffffffff + of_nat i) div of_nat i :: u64)])
     else lut)"
  by pat_completeness auto
termination
  by (relation "measure (\<lambda>(i, lut). 64 - i)") auto

declare lut_loop.simps [simp del]

definition init_bore_reciprocal_lut :: "bore_state \<Rightarrow> bore_state" where
  "init_bore_reciprocal_lut S = S\<lparr>bore_reciprocal_lut := lut_loop 1 (bore_reciprocal_lut S)\<rparr>"

text \<open>
  The first two links of the circular list of children: a link that is not back at the head is
  a child.
\<close>

definition count_children_upto2 :: "heap \<Rightarrow> task \<Rightarrow> u32" where
  "count_children_upto2 h p =
    of_bool (children (h p) \<noteq> []) + of_bool (tl (children (h p)) \<noteq> [])"

definition burst_cache_expired :: "bore_params \<Rightarrow> bore_bc \<Rightarrow> u64 \<Rightarrow> bool" where
  "burst_cache_expired P bc now =
    (let timestamp = push_bit BORE_BC_TIMESTAMP_SHIFT (bc_timestamp bc)
     in now - timestamp > ucast (sched_burst_cache_lifetime P))"

definition update_burst_cache :: "bore_state \<Rightarrow> bore_ctx \<Rightarrow> u32 \<Rightarrow> u32 \<Rightarrow> u64 \<Rightarrow> bore_bc" where
  "update_burst_cache S ctx count tot now =
    (let average = (if count = 1 then tot
           else ucast (drop_bit 32 ((ucast tot :: u64) * ucast (bore_reciprocal_lut S ! unat count))))
     in mk_bore_bc (max average (ucast (penalty ctx))) (drop_bit BORE_BC_TIMESTAMP_SHIFT now))"

text \<open>
  The scan over a list of tasks, as in \<open>inherit_from_parent\<close> and \<open>inherit_from_thread_group\<close>:
  the running count, total and number of tasks looked at.
\<close>

fun burst_scan :: "heap \<Rightarrow> task list \<Rightarrow> u32 \<Rightarrow> u32 \<Rightarrow> u32 \<Rightarrow> u32 \<times> u32" where
  "burst_scan h [] count tot scan_count = (count, tot)"
| "burst_scan h (c # cs) count tot scan_count =
    (if count \<ge> BURST_CACHE_SAMPLE_LIMIT then (count, tot)
     else if scan_count \<ge> BURST_CACHE_SCAN_LIMIT then (count, tot)
     else if \<not> bore_task_is_eligible h c then burst_scan h cs count tot (scan_count + 1)
     else burst_scan h cs (count + 1) (tot + ucast (penalty (bore_get_ctx h c))) (scan_count + 1))"

text \<open>
  The result of inheriting is the heap after a possible cache update and the inherited penalty;
  \<^const>\<open>None\<close> when the code does not return or dereferences NULL.
\<close>

definition inherit_from_parent :: "bore_state \<Rightarrow> heap \<Rightarrow> task option \<Rightarrow> u64 \<Rightarrow> u64 \<Rightarrow> (heap \<times> u32) option" where
  "inherit_from_parent S h parent clone_flags now =
    do {
      parent' \<leftarrow> (if clone_flags AND CLONE_PARENT \<noteq> 0
                  then map_option (\<lambda>p. real_parent (h p)) parent else Some parent);
      case parent' of
        None \<Rightarrow> Some (h, 0)
      | Some p \<Rightarrow>
          let ctx = bore_get_ctx h p;
              h' = (if burst_cache_expired (params S) (subtree ctx) now
                    then let (count, tot) = burst_scan h (children (h p)) 0 0 0
                         in bore_put_ctx h p (ctx\<lparr>subtree := update_burst_cache S ctx count tot now\<rparr>)
                    else h)
          in Some (h', ucast (bc_penalty (subtree (bore_get_ctx h' p))))
    }"

text \<open>The climb to the first ancestor with more children than allowed.\<close>

partial_function (option) hub_climb :: "heap \<Rightarrow> task \<Rightarrow> u32 \<Rightarrow> task option" where
  "hub_climb h ancestor sole_child_count =
    (case real_parent (h ancestor) of
       None \<Rightarrow> Some ancestor
     | Some next \<Rightarrow>
         if next \<noteq> ancestor \<and> count_children_upto2 h ancestor \<le> sole_child_count
         then hub_climb h next 1 else Some ancestor)"

text \<open>The walk down a chain of only children.\<close>

partial_function (option) sole_descend :: "heap \<Rightarrow> task \<Rightarrow> task option" where
  "sole_descend h descendant =
    (if count_children_upto2 h descendant = 1
     then (case children (h descendant) of
             [] \<Rightarrow> Some descendant
           | next_descendant # _ \<Rightarrow> sole_descend h next_descendant)
     else Some descendant)"

fun burst_scan_hub :: "heap \<Rightarrow> task list \<Rightarrow> u32 \<Rightarrow> u32 \<Rightarrow> u32 \<Rightarrow> (u32 \<times> u32) option" where
  "burst_scan_hub h [] count tot scan_count = Some (count, tot)"
| "burst_scan_hub h (c # cs) count tot scan_count =
    (if count \<ge> BURST_CACHE_SAMPLE_LIMIT then Some (count, tot)
     else if scan_count \<ge> BURST_CACHE_SCAN_LIMIT then Some (count, tot)
     else do {
       d \<leftarrow> sole_descend h c;
       if \<not> bore_task_is_eligible h d then burst_scan_hub h cs count tot (scan_count + 1)
       else burst_scan_hub h cs (count + 1) (tot + ucast (penalty (bore_get_ctx h d))) (scan_count + 1)
     })"

definition inherit_from_ancestor_hub :: "bore_state \<Rightarrow> heap \<Rightarrow> task option \<Rightarrow> u64 \<Rightarrow> u64 \<Rightarrow> (heap \<times> u32) option" where
  "inherit_from_ancestor_hub S h parent clone_flags now =
    do {
      (anc, sole) \<leftarrow> (if clone_flags AND CLONE_PARENT \<noteq> 0
                      then map_option (\<lambda>p. (real_parent (h p), 1)) parent else Some (parent, 0));
      case anc of
        None \<Rightarrow> Some (h, 0)
      | Some a \<Rightarrow> do {
          hub \<leftarrow> hub_climb h a sole;
          let ctx = bore_get_ctx h hub;
          h' \<leftarrow> (if burst_cache_expired (params S) (subtree ctx) now
                 then do {
                   (count, tot) \<leftarrow> burst_scan_hub h (children (h hub)) 0 0 0;
                   Some (bore_put_ctx h hub (ctx\<lparr>subtree := update_burst_cache S ctx count tot now\<rparr>))
                 }
                 else Some h);
          Some (h', ucast (bc_penalty (subtree (bore_get_ctx h' hub))))
        }
    }"

definition inherit_from_thread_group :: "bore_state \<Rightarrow> heap \<Rightarrow> task \<Rightarrow> u64 \<Rightarrow> heap \<times> u32" where
  "inherit_from_thread_group S h p now =
    (case group_leader (h p) of
       None \<Rightarrow> (h, 0)
     | Some leader \<Rightarrow>
         let ctx = bore_get_ctx h leader;
             h' = (if burst_cache_expired (params S) (grp ctx) now
                   then let (count, tot) = burst_scan h (threads_of h leader) 0 0 0
                        in bore_put_ctx h leader (ctx\<lparr>grp := update_burst_cache S ctx count tot now\<rparr>)
                   else h)
         in (h', ucast (bc_penalty (grp (bore_get_ctx h' leader)))))"

text \<open>What the scans and the cache mean: the mean penalty of a bounded sample of tasks.\<close>

definition burst_sample :: "heap \<Rightarrow> task list \<Rightarrow> task list" where
  "burst_sample h ts = take 63 (filter (bore_task_is_eligible h) (take 126 ts))"

definition total_penalty :: "heap \<Rightarrow> task list \<Rightarrow> nat" where
  "total_penalty h ts = (\<Sum>t\<leftarrow>ts. unat (penalty (bore_get_ctx h t)))"

definition mean_penalty :: "heap \<Rightarrow> task list \<Rightarrow> nat" where
  "mean_penalty h ts = total_penalty h ts div length ts"

text \<open>The table after initialisation.\<close>

definition lut_ready :: "bore_state \<Rightarrow> bool" where
  "lut_ready S \<longleftrightarrow> bore_reciprocal_lut S = lut_loop 1 (replicate 64 0)"

text \<open>The bound every stored penalty keeps.\<close>

definition ctx_ok :: "bore_ctx \<Rightarrow> bool" where
  "ctx_ok c \<longleftrightarrow> unat (prev_penalty c) \<le> 10239 \<and> unat (curr_penalty c) \<le> 10239 \<and>
    unat (penalty c) \<le> 10239 \<and> unat (bc_penalty (subtree c)) \<le> 10239 \<and>
    unat (bc_penalty (grp c)) \<le> 10239"

definition heap_ok :: "heap \<Rightarrow> bool" where
  "heap_ok h \<longleftrightarrow> (\<forall>t. ctx_ok (bore_get_ctx h t))"

text \<open>A task forest without cycles: ranks that shrink on the way up and on the way down.\<close>

definition task_forest :: "heap \<Rightarrow> (task \<Rightarrow> nat) \<Rightarrow> (task \<Rightarrow> nat) \<Rightarrow> bool" where
  "task_forest h depth height \<longleftrightarrow>
    (\<forall>t q. real_parent (h t) = Some q \<longrightarrow> q \<noteq> t \<longrightarrow> depth q < depth t) \<and>
    (\<forall>t. \<forall>c \<in> set (children (h t)). height c < height t)"

text \<open>
  Where the walks should end, said without them. An ancestor hub of \<open>a\<close> is the nearest of \<open>a\<close>, its
  parent, its grandparent and so on at which the climb has a reason to stop: a root, or a task
  with more children than the path itself accounts for (\<open>n\<close> at the start, one further up). The
  bottom of a chain is reached by going from a task to its only child as often as there is one.
\<close>

definition parent_of :: "heap \<Rightarrow> task \<Rightarrow> task" where
  "parent_of h t = (case real_parent (h t) of None \<Rightarrow> t | Some q \<Rightarrow> q)"

definition hub_stop :: "heap \<Rightarrow> nat \<Rightarrow> nat \<Rightarrow> task \<Rightarrow> bool" where
  "hub_stop h n k t \<longleftrightarrow> parent_of h t = t \<or> (if k = 0 then n else 1) < length (children (h t))"

definition ancestor_hub :: "heap \<Rightarrow> nat \<Rightarrow> task \<Rightarrow> task \<Rightarrow> bool" where
  "ancestor_hub h n a hub \<longleftrightarrow>
    (\<exists>k. hub = (parent_of h ^^ k) a \<and> hub_stop h n k hub \<and>
      (\<forall>j < k. \<not> hub_stop h n j ((parent_of h ^^ j) a)))"

definition only_child :: "heap \<Rightarrow> task \<Rightarrow> task" where
  "only_child h t = (if length (children (h t)) = 1 then hd (children (h t)) else t)"

definition chain_bottom :: "heap \<Rightarrow> task \<Rightarrow> task \<Rightarrow> bool" where
  "chain_bottom h c d \<longleftrightarrow> (\<exists>k. d = (only_child h ^^ k) c) \<and> length (children (h d)) \<noteq> 1"

text \<open>The part of a context that no cache update touches.\<close>

definition ctx_core :: "bore_ctx \<Rightarrow> bore_ctx" where
  "ctx_core c = c\<lparr>subtree := \<lparr>bc_value = 0\<rparr>, grp := \<lparr>bc_value = 0\<rparr>\<rparr>"

section \<open>The reciprocal table\<close>

lemma length_lut_loop [simp]: "length (lut_loop i lut) = length lut"
  by (induction i lut rule: lut_loop.induct) (subst lut_loop.simps, simp)

lemma lut_loop_nth:
  "j < length lut \<Longrightarrow> lut_loop i lut ! j =
    (if i \<le> j \<and> j \<le> 63 then ucast ((0xffffffff + of_nat j) div of_nat j :: u64) else lut ! j)"
proof (induction i lut rule: lut_loop.induct)
  case (1 i lut)
  show ?case
  proof (cases "i \<le> 63")
    case True
    have "lut_loop i lut ! j = lut_loop (Suc i) (lut[i := ucast ((0xffffffff + of_nat i) div of_nat i :: u64)]) ! j"
      using True by (subst lut_loop.simps) simp
    also have "\<dots> = (if Suc i \<le> j \<and> j \<le> 63 then ucast ((0xffffffff + of_nat j) div of_nat j :: u64)
        else lut[i := ucast ((0xffffffff + of_nat i) div of_nat i :: u64)] ! j)"
      using True "1.prems" by (intro "1.IH") simp_all
    finally show ?thesis
      using True "1.prems" by (cases "j = i") simp_all
  qed (subst lut_loop.simps, auto)
qed

text \<open>An entry is the reciprocal rounded up; entry 0 is never written.\<close>

lemma lut_entry:
  assumes "lut_ready S" and "2 \<le> n" and "n \<le> 63"
  shows "unat (bore_reciprocal_lut S ! n) = (4294967295 + n) div n"
proof -
  have n: "unat (of_nat n :: u64) = n"
    using assms by (simp add: unat_of_nat)
  have "unat (0xffffffff + of_nat n :: u64) = 4294967295 + n"
    using assms by (subst unat_add_lem [THEN iffD1]) (simp_all add: n)
  then have "unat ((0xffffffff + of_nat n) div of_nat n :: u64) = (4294967295 + n) div n"
    by (simp only: unat_div n)
  moreover have "(4294967295 + n) div n < 4294967296"
  proof -
    have "4294967295 + n < 4294967296 * n"
      using assms by linarith
    then show ?thesis
      by (simp only: less_mult_imp_div_less)
  qed
  ultimately show ?thesis
    using assms by (simp add: lut_ready_def lut_loop_nth unsigned_ucast_eq take_bit_nat_eq_self)
qed

lemma lut_entry_0: "lut_ready S \<Longrightarrow> bore_reciprocal_lut S ! 0 = 0"
  by (simp add: lut_ready_def lut_loop_nth)

lemma reciprocal_div:
  fixes n t :: nat
  assumes "2 \<le> n" and "n \<le> 63" and "t \<le> 4128705"
  shows "(t * ((4294967295 + n) div n)) div 4294967296 = t div n"
proof -
  define r where "r = (4294967295 + n) div n"
  define e where "e = r * n - 4294967296"
  define q where "q = t div n"
  define s where "s = t mod n"
  have t: "t = q * n + s" and "s < n"
    using assms by (simp_all add: q_def s_def)
  have "r * n \<le> 4294967295 + n"
    unfolding r_def by (rule div_times_less_eq_dividend)
  moreover have "4294967295 + n < r * n + n"
    using assms dividend_less_div_times [of n "4294967295 + n"] by (simp add: r_def add.commute)
  ultimately have rn: "r * n = 4294967296 + e" and "e < n"
    by (simp_all add: e_def)
  have "r * n \<le> r * 63"
    using assms by simp
  then have "68000000 \<le> r"
    using rn by linarith
  moreover have "q * e \<le> q * n"
    using \<open>e < n\<close> by simp
  moreover have "Suc s * r \<le> n * r"
    using \<open>s < n\<close> by (intro mult_le_mono1) simp
  then have "r + s * r \<le> 4294967296 + e"
    using rn by (simp add: mult.commute)
  ultimately have "q * e + s * r < 4294967296"
    using t assms \<open>e < n\<close> by linarith
  moreover have "t * r = (q * e + s * r) + q * 4294967296"
  proof -
    have "t * r = q * (r * n) + s * r"
      by (simp add: t algebra_simps)
    also have "\<dots> = (q * e + s * r) + q * 4294967296"
      by (simp only: rn) (simp add: algebra_simps)
    finally show ?thesis .
  qed
  ultimately have "(t * r) div 4294967296 = q"
    by simp
  then show ?thesis
    by (simp only: r_def q_def)
qed

text \<open>The average computed through the table is the integer quotient.\<close>

lemma lut_average:
  fixes tot count :: u32
  assumes "lut_ready S" and "count \<noteq> 1" and "unat count \<le> 63" and "unat tot \<le> 4128705"
  shows "unat (ucast (drop_bit 32 ((ucast tot :: u64) * ucast (bore_reciprocal_lut S ! unat count))) :: u32) =
    unat tot div unat count"
proof (cases "count = 0")
  case True
  then show ?thesis
    using lut_entry_0 [OF assms(1)] by simp
next
  case False
  let ?l = "bore_reciprocal_lut S ! unat count"
  have "unat count \<noteq> 0" and "unat count \<noteq> 1"
    using False assms(2) by (auto simp: word_unat_eq_iff)
  then have c: "2 \<le> unat count"
    by linarith
  have l: "unat ?l = (4294967295 + unat count) div unat count"
    using assms(1) c assms(3) by (rule lut_entry)
  have "unat tot * unat ?l \<le> 4128705 * 4294967296"
    using assms(4) by (intro mult_le_mono) (simp_all add: less_imp_le)
  then have "unat ((ucast tot :: u64) * ucast ?l) = unat tot * unat ?l"
    by (subst unat_mult_lem [THEN iffD1]) (simp_all add: unat_simps)
  then have "unat (drop_bit 32 ((ucast tot :: u64) * ucast ?l)) = (unat tot * unat ?l) div 4294967296"
    by (simp only: unat_drop_bit_eq) (simp add: drop_bit_eq_div)
  also have "\<dots> = unat tot div unat count"
    unfolding l using c assms(3,4) by (rule reciprocal_div)
  finally have *: "unat (drop_bit 32 ((ucast tot :: u64) * ucast ?l)) = unat tot div unat count" .
  have "unat tot div unat count \<le> unat tot"
    by (rule div_le_dividend)
  then have "unat tot div unat count < 4294967296"
    using unat_u32_lt [of tot] by linarith
  then show ?thesis
    by (simp only: unsigned_ucast_eq *) (simp add: take_bit_nat_eq_self)
qed

lemma update_burst_cache_penalty:
  assumes "lut_ready S" and "unat count \<le> 63" and "unat tot \<le> unat count * 65535"
  shows "unat (bc_penalty (update_burst_cache S ctx count tot now)) =
    max (unat tot div unat count) (unat (penalty ctx))"
proof -
  let ?avg = "if count = 1 then tot
    else ucast (drop_bit 32 ((ucast tot :: u64) * ucast (bore_reciprocal_lut S ! unat count))) :: u32"
  have tot: "unat tot \<le> 4128705"
    using assms(2,3) by linarith
  have avg: "unat ?avg = unat tot div unat count"
    using lut_average [OF assms(1) _ assms(2) tot] by simp
  have "unat tot div unat count \<le> (unat count * 65535) div unat count"
    using assms(3) by (rule div_le_mono)
  then have "unat tot div unat count \<le> 65535"
    by (cases "unat count = 0") simp_all
  then have "unat (max ?avg (ucast (penalty ctx))) < 65536"
    by (simp only: unat_max_word avg unat_ucast_u16_u32) (simp add: less_Suc_eq_le)
  then show ?thesis
    unfolding update_burst_cache_def Let_def
    by (simp only: bc_penalty_mk unat_ucast_u32_u16) (simp only: unat_max_word avg unat_ucast_u16_u32)
qed

section \<open>The scans\<close>

lemma total_penalty_simps [simp]:
  "total_penalty h [] = 0"
  "total_penalty h (t # ts) = unat (penalty (bore_get_ctx h t)) + total_penalty h ts"
  by (simp_all add: total_penalty_def)

lemma total_penalty_le: "total_penalty h ts \<le> length ts * 65535"
proof (induction ts)
  case (Cons t ts)
  have "unat (penalty (bore_get_ctx h t)) \<le> 65535"
    by (simp add: less_Suc_eq_le [symmetric])
  with Cons show ?case by simp
qed simp

lemma burst_limits: "unat BURST_CACHE_SAMPLE_LIMIT = 63" "unat BURST_CACHE_SCAN_LIMIT = 126"
  by (simp_all add: BURST_CACHE_SAMPLE_LIMIT_def BURST_CACHE_SCAN_LIMIT_def)

lemma unat_Suc_small: "unat x \<le> 126 \<Longrightarrow> unat ((x :: u32) + 1) = Suc (unat x)"
  by (subst unat_add_lem [THEN iffD1]) simp_all

lemma burst_scan_eq:
  fixes h :: heap and ts :: "task list"
  assumes "unat count \<le> 63" and "unat scan_count \<le> 126" and "unat tot \<le> unat count * 65535"
  defines "S \<equiv> take (63 - unat count) (filter (bore_task_is_eligible h) (take (126 - unat scan_count) ts))"
  shows "unat (fst (burst_scan h ts count tot scan_count)) = unat count + length S \<and>
    unat (snd (burst_scan h ts count tot scan_count)) = unat tot + total_penalty h S"
  using assms(1-3) unfolding S_def
proof (induction ts arbitrary: count tot scan_count)
  case (Cons c cs)
  consider "63 \<le> unat count \<or> 126 \<le> unat scan_count"
    | "unat count < 63" "unat scan_count < 126" "\<not> bore_task_is_eligible h c"
    | "unat count < 63" "unat scan_count < 126" "bore_task_is_eligible h c"
    by linarith
  then show ?case
  proof cases
    case 1
    then have "count \<ge> BURST_CACHE_SAMPLE_LIMIT \<or> scan_count \<ge> BURST_CACHE_SCAN_LIMIT"
      by (simp add: word_le_nat_alt burst_limits)
    with 1 show ?thesis by auto
  next
    case 2
    then have "\<not> count \<ge> BURST_CACHE_SAMPLE_LIMIT" "\<not> scan_count \<ge> BURST_CACHE_SCAN_LIMIT"
      by (simp_all add: word_le_nat_alt burst_limits)
    moreover have "126 - unat scan_count = Suc (126 - unat (scan_count + 1))"
      using 2 by (simp add: unat_Suc_small)
    ultimately show ?thesis
      using 2 Cons.prems Cons.IH [of count "scan_count + 1" tot] by (simp add: unat_Suc_small)
  next
    case 3
    let ?p = "penalty (bore_get_ctx h c)"
    have "\<not> count \<ge> BURST_CACHE_SAMPLE_LIMIT" "\<not> scan_count \<ge> BURST_CACHE_SCAN_LIMIT"
      using 3 by (simp_all add: word_le_nat_alt burst_limits)
    moreover have scan: "126 - unat scan_count = Suc (126 - unat (scan_count + 1))"
      and sample: "63 - unat count = Suc (63 - unat (count + 1))"
      using 3 by (simp_all add: unat_Suc_small)
    moreover have "unat tot + unat ?p < 4294967296"
      using Cons.prems 3 unat_u16_lt [of ?p] by linarith
    then have "unat (tot + ucast ?p) = unat tot + unat ?p"
      by (subst unat_add_lem [THEN iffD1]) (simp_all add: unat_simps)
    moreover have "unat ?p \<le> 65535"
      by (simp add: less_Suc_eq_le [symmetric])
    ultimately show ?thesis
      using 3 Cons.prems Cons.IH [of "count + 1" "scan_count + 1" "tot + ucast ?p"]
      by (simp add: unat_Suc_small)
  qed
qed simp

text \<open>A whole scan counts and adds up the sample.\<close>

lemma burst_scan_sample:
  assumes "burst_scan h ts 0 0 0 = (count, tot)"
  shows "unat count = length (burst_sample h ts)" and "unat tot = total_penalty h (burst_sample h ts)"
    and "unat count \<le> 63" and "unat tot \<le> unat count * 65535"
  using burst_scan_eq [of 0 0 0 h ts] assms total_penalty_le [of h "burst_sample h ts"]
  by (simp_all add: burst_sample_def)

text \<open>What a cache holds after an update from a scan.\<close>

lemma update_from_scan:
  assumes "lut_ready S" and "burst_scan h ts 0 0 0 = (count, tot)"
  shows "unat (bc_penalty (update_burst_cache S ctx count tot now)) =
    max (mean_penalty h (burst_sample h ts)) (unat (penalty ctx))"
  using update_burst_cache_penalty [OF assms(1) burst_scan_sample(3,4) [OF assms(2)]]
  by (simp add: burst_scan_sample(1,2) [OF assms(2)] mean_penalty_def)

lemma mean_penalty_le:
  assumes "heap_ok h"
  shows "mean_penalty h ts \<le> 10239"
proof -
  have "total_penalty h ts \<le> length ts * 10239"
    using assms by (induction ts) (auto simp: heap_ok_def ctx_ok_def add_mono)
  then have "mean_penalty h ts \<le> (length ts * 10239) div length ts"
    unfolding mean_penalty_def by (rule div_le_mono)
  then show ?thesis
    by (cases "length ts = 0") simp_all
qed

section \<open>Walks in the task tree\<close>

lemma count_children_eq: "unat (count_children_upto2 h p) = min 2 (length (children (h p)))"
  by (cases "children (h p)"; cases "tl (children (h p))") (simp_all add: count_children_upto2_def)

lemma hub_climb_returns:
  assumes "task_forest h depth height"
  shows "\<exists>hub. hub_climb h a n = Some hub"
proof (induction "depth a" arbitrary: a n rule: less_induct)
  case less
  show ?case
  proof (cases "real_parent (h a)")
    case None
    then show ?thesis by (subst hub_climb.simps) simp
  next
    case (Some q)
    show ?thesis
    proof (cases "q = a")
      case True
      then show ?thesis using Some by (subst hub_climb.simps) simp
    next
      case False
      then have "depth q < depth a"
        using assms Some by (auto simp: task_forest_def)
      then show ?thesis
        using Some less [of q 1] by (subst hub_climb.simps) auto
    qed
  qed
qed

text \<open>One step of the climb, and where the climb ends.\<close>

lemma hub_climb_step:
  "hub_climb h a n =
    (if hub_stop h (unat n) 0 a then Some a else hub_climb h (parent_of h a) 1)" if "n \<le> 1"
proof -
  have "count_children_upto2 h a \<le> n \<longleftrightarrow> length (children (h a)) \<le> unat n"
    using that count_children_eq [of h a] by (auto simp: word_le_nat_alt)
  then show ?thesis
    by (subst hub_climb.simps) (auto simp: hub_stop_def parent_of_def not_less split: option.split)
qed

lemma ancestor_hub_step:
  assumes "\<not> hub_stop h n 0 a" and "ancestor_hub h 1 (parent_of h a) hub"
  shows "ancestor_hub h n a hub"
proof -
  have stop: "hub_stop h n (Suc j) t = hub_stop h 1 j t" for j t
    by (simp add: hub_stop_def)
  obtain k where "hub = (parent_of h ^^ Suc k) a" "hub_stop h n (Suc k) hub"
      "\<forall>j < k. \<not> hub_stop h n (Suc j) ((parent_of h ^^ Suc j) a)"
    using assms(2) unfolding ancestor_hub_def stop funpow_Suc_right o_apply by blast
  with assms(1) show ?thesis
    unfolding ancestor_hub_def by (intro exI [of _ "Suc k"]) (simp add: All_less_Suc2)
qed

lemma hub_climb_hub:
  assumes "task_forest h depth height" and "n \<le> 1" and "hub_climb h a n = Some hub"
  shows "ancestor_hub h (unat n) a hub"
  using assms(2,3)
proof (induction "depth a" arbitrary: a n rule: less_induct)
  case less
  show ?case
  proof (cases "hub_stop h (unat n) 0 a")
    case True
    then show ?thesis
      using less.prems by (auto simp: hub_climb_step ancestor_hub_def intro!: exI [of _ 0])
  next
    case False
    then have "depth (parent_of h a) < depth a"
      using assms(1) by (auto simp: hub_stop_def parent_of_def task_forest_def split: option.splits)
    then have "ancestor_hub h 1 (parent_of h a) hub"
      using less.hyps [of "parent_of h a" 1] less.prems False by (simp add: hub_climb_step)
    with False show ?thesis by (rule ancestor_hub_step)
  qed
qed

text \<open>There is only one nearest stop.\<close>

lemma ancestor_hub_unique:
  assumes "ancestor_hub h n a x" and "ancestor_hub h n a y"
  shows "x = y"
proof -
  obtain i j where "x = (parent_of h ^^ i) a" "y = (parent_of h ^^ j) a" "hub_stop h n i x" "hub_stop h n j y"
      "\<forall>k < i. \<not> hub_stop h n k ((parent_of h ^^ k) a)" "\<forall>k < j. \<not> hub_stop h n k ((parent_of h ^^ k) a)"
    using assms unfolding ancestor_hub_def by blast
  then show ?thesis by (cases i j rule: linorder_cases) auto
qed

lemma sole_descend_returns:
  assumes "task_forest h depth height"
  shows "\<exists>d. sole_descend h c = Some d"
proof (induction "height c" arbitrary: c rule: less_induct)
  case less
  show ?case
  proof (cases "children (h c)")
    case Nil
    then show ?thesis by (subst sole_descend.simps) simp
  next
    case (Cons d ds)
    then have "height d < height c"
      using assms by (auto simp: task_forest_def)
    then show ?thesis
      using Cons less [of d] by (subst sole_descend.simps) auto
  qed
qed

lemma sole_descend_step:
  "sole_descend h c = (if length (children (h c)) = 1 then sole_descend h (only_child h c) else Some c)"
proof -
  have "count_children_upto2 h c = 1 \<longleftrightarrow> length (children (h c)) = 1"
    using count_children_eq [of h c] by (auto simp: word_unat_eq_iff)
  then show ?thesis
    by (subst sole_descend.simps) (auto simp: only_child_def split: list.split)
qed

lemma sole_descend_bottom:
  assumes "task_forest h depth height" and "sole_descend h c = Some d"
  shows "chain_bottom h c d"
  using assms(2)
proof (induction "height c" arbitrary: c rule: less_induct)
  case less
  show ?case
  proof (cases "length (children (h c)) = 1")
    case True
    then have "only_child h c \<in> set (children (h c))"
      by (cases "children (h c)") (simp_all add: only_child_def)
    then have "height (only_child h c) < height c"
      using assms(1) by (auto simp: task_forest_def)
    then have "chain_bottom h (only_child h c) d"
      using less.hyps less.prems True by (simp add: sole_descend_step [of h c])
    then show ?thesis
      unfolding chain_bottom_def by (metis funpow_swap1 funpow.simps(2) o_apply)
  next
    case False
    then show ?thesis
      using less.prems by (auto simp: sole_descend_step [of h c] chain_bottom_def intro: exI [of _ 0])
  qed
qed

text \<open>A chain has one bottom: further steps down stay there.\<close>

lemma only_child_stays: "length (children (h d)) \<noteq> 1 \<Longrightarrow> (only_child h ^^ k) d = d"
  by (induction k) (simp_all add: only_child_def)

lemma chain_bottom_unique:
  assumes "chain_bottom h c x" and "chain_bottom h c y"
  shows "x = y"
proof -
  have later: "(only_child h ^^ j) c = d" if "d = (only_child h ^^ i) c" "length (children (h d)) \<noteq> 1" "i \<le> j"
    for i j d
  proof -
    have "(only_child h ^^ j) c = (only_child h ^^ (j - i)) ((only_child h ^^ i) c)"
      using that(3) by (simp add: funpow_add [symmetric, THEN fun_cong, unfolded o_apply])
    then show ?thesis using that(1,2) by (simp add: only_child_stays)
  qed
  obtain i j where "x = (only_child h ^^ i) c" "y = (only_child h ^^ j) c"
    using assms unfolding chain_bottom_def by blast
  moreover have "length (children (h x)) \<noteq> 1" and "length (children (h y)) \<noteq> 1"
    using assms by (simp_all add: chain_bottom_def)
  ultimately show ?thesis
    using later [of x i j] later [of y j i] by (metis nat_le_linear)
qed

lemma chain_bottoms_exist:
  assumes "task_forest h depth height"
  shows "\<exists>ds. list_all2 (\<lambda>c d. sole_descend h c = Some d) cs ds \<and> list_all2 (chain_bottom h) cs ds"
proof (induction cs)
  case (Cons c cs)
  obtain d where "sole_descend h c = Some d"
    using sole_descend_returns [OF assms] by blast
  moreover obtain ds where "list_all2 (\<lambda>c d. sole_descend h c = Some d) cs ds" "list_all2 (chain_bottom h) cs ds"
    using Cons by blast
  ultimately show ?case
    using sole_descend_bottom [OF assms] by (intro exI [of _ "d # ds"]) simp
qed simp

lemma burst_scan_hub_eq:
  "list_all2 (\<lambda>c d. sole_descend h c = Some d) ts ds \<Longrightarrow>
    burst_scan_hub h ts count tot scan_count = Some (burst_scan h ds count tot scan_count)"
  by (induction ts ds arbitrary: count tot scan_count rule: list_all2_induct) simp_all

section \<open>Inheritance\<close>

lemma expired_update:
  "burst_cache_expired P (update_burst_cache S ctx count tot t) now \<longleftrightarrow>
    now - (t AND NOT (mask 16)) > ucast (sched_burst_cache_lifetime P)"
proof -
  have "push_bit 16 (take_bit 48 (drop_bit 16 t)) = t AND NOT (mask 16)"
    by (rule bit_word_eqI) (auto simp: bit_simps)
  then show ?thesis
    by (simp add: burst_cache_expired_def update_burst_cache_def bc_timestamp_mk
        BORE_BC_TIMESTAMP_SHIFT_def)
qed

text \<open>The time stamp loses at most \<open>2 ^ 16 - 1\<close> nanoseconds.\<close>

lemma clear_low_bits:
  fixes t :: u64
  shows "t AND NOT (mask 16) \<le> t" and "unat t - unat (t AND NOT (mask 16)) < 65536"
proof -
  have split: "unat t = unat (t AND NOT (mask 16)) + unat (t AND mask 16)"
  proof -
    have "(t AND NOT (mask 16)) + (t AND mask 16) = t"
      by (subst disjunctive_add_eq_or; rule bit_word_eqI) (auto simp: bit_simps)
    moreover have "(t AND NOT (mask 16)) AND (t AND mask 16) = 0"
      by (rule bit_word_eqI) (auto simp: bit_simps)
    ultimately show ?thesis
      by (metis word_and_le1 word_and_le2 unat_plus_simple word_le_nat_alt)
  qed
  moreover have "unat (t AND mask 16) < 65536"
    by (simp only: take_bit_eq_mask [symmetric] unsigned_take_bit_eq) (simp add: take_bit_eq_mod)
  ultimately show "t AND NOT (mask 16) \<le> t" and "unat t - unat (t AND NOT (mask 16)) < 65536"
    by (simp_all add: word_le_nat_alt)
qed

lemma cache_fresh:
  assumes "t \<le> now" and "unat now - unat t + 65535 \<le> unat (sched_burst_cache_lifetime P)"
  shows "\<not> burst_cache_expired P (update_burst_cache S ctx count tot t) now"
proof -
  have "t AND NOT (mask 16) \<le> now"
    using clear_low_bits(1) [of t] assms(1) by simp
  then have "unat (now - (t AND NOT (mask 16))) = unat now - unat (t AND NOT (mask 16))"
    by (rule unat_sub)
  moreover have "unat t \<le> unat now" and "unat (t AND NOT (mask 16)) \<le> unat t"
    using assms(1) clear_low_bits(1) [of t] by (simp_all add: word_le_nat_alt)
  ultimately show ?thesis
    using assms(2) clear_low_bits(2) [of t]
    by (simp add: expired_update word_less_nat_alt unat_simps)
qed

lemma cache_stale:
  assumes "t \<le> now" and "unat (sched_burst_cache_lifetime P) < unat now - unat t"
  shows "burst_cache_expired P (update_burst_cache S ctx count tot t) now"
proof -
  have "t AND NOT (mask 16) \<le> now"
    using clear_low_bits(1) [of t] assms(1) by simp
  then have "unat (now - (t AND NOT (mask 16))) = unat now - unat (t AND NOT (mask 16))"
    by (rule unat_sub)
  moreover have "unat (t AND NOT (mask 16)) \<le> unat t"
    using clear_low_bits(1) [of t] by (simp add: word_le_nat_alt)
  ultimately show ?thesis
    using assms(2) by (simp add: expired_update word_less_nat_alt unat_simps)
qed

lemma ctx_core_caches [simp]: "ctx_core (c\<lparr>subtree := b\<rparr>) = ctx_core c" "ctx_core (c\<lparr>grp := b\<rparr>) = ctx_core c"
  by (simp_all add: ctx_core_def)

lemma ctx_core_eqD:
  assumes "ctx_core c = ctx_core d"
  shows "burst_time c = burst_time d" and "prev_penalty c = prev_penalty d"
    and "curr_penalty c = curr_penalty d" and "penalty c = penalty d"
    and "stop_update c = stop_update d" and "futex_waiting c = futex_waiting d"
  using assms by (cases c; cases d; simp add: ctx_core_def)+

lemma heap_ok_put: "heap_ok h \<Longrightarrow> ctx_ok c \<Longrightarrow> heap_ok (bore_put_ctx h p c)"
  by (simp add: heap_ok_def)

lemma heap_okD: "heap_ok h \<Longrightarrow> ctx_ok (bore_get_ctx h p)"
  by (simp add: heap_ok_def)

lemma update_cache_ok:
  assumes "lut_ready S" and "heap_ok h" and "burst_scan h ts 0 0 0 = (count, tot)"
  shows "unat (bc_penalty (update_burst_cache S (bore_get_ctx h p) count tot now)) \<le> 10239"
  using update_from_scan [OF assms(1,3)] mean_penalty_le [OF assms(2)] heap_okD [OF assms(2), of p]
  by (simp add: ctx_ok_def)

text \<open>
  The contract of a penalty source, as the fork handler uses it: it writes burst caches only, it
  keeps the bound on stored penalties, and what it returns is within the bound.
\<close>

locale penalty_source =
  fixes inherit :: "bore_state \<Rightarrow> heap \<Rightarrow> (heap \<times> u32) option"
  assumes source_frame: "inherit S h = Some (h', v) \<Longrightarrow> same_task_but_kabi h h'"
    and source_core: "inherit S h = Some (h', v) \<Longrightarrow> ctx_core (bore_get_ctx h' t) = ctx_core (bore_get_ctx h t)"
    and source_ok: "inherit S h = Some (h', v) \<Longrightarrow> lut_ready S \<Longrightarrow> heap_ok h \<Longrightarrow> heap_ok h' \<and> unat v \<le> 10239"

text \<open>Both shapes of cache update, at the subtree cache and at the thread group cache.\<close>

lemma subtree_update_source:
  assumes h': "h' = (if burst_cache_expired (params S) (subtree (bore_get_ctx h p)) now
      then bore_put_ctx h p ((bore_get_ctx h p)\<lparr>subtree := update_burst_cache S (bore_get_ctx h p) count tot now\<rparr>)
      else h)"
    and scan: "burst_scan h ts 0 0 0 = (count, tot)"
  shows "same_task_but_kabi h h'" and "ctx_core (bore_get_ctx h' t) = ctx_core (bore_get_ctx h t)"
    and "lut_ready S \<Longrightarrow> heap_ok h \<Longrightarrow> heap_ok h' \<and> unat (ucast (bc_penalty (subtree (bore_get_ctx h' p))) :: u32) \<le> 10239"
  using heap_okD [of h p] update_cache_ok [OF _ _ scan, of S p now]
  by (auto simp: h' ctx_ok_def unat_simps intro!: heap_ok_put)

lemma group_update_source:
  assumes h': "h' = (if burst_cache_expired (params S) (grp (bore_get_ctx h p)) now
      then bore_put_ctx h p ((bore_get_ctx h p)\<lparr>grp := update_burst_cache S (bore_get_ctx h p) count tot now\<rparr>)
      else h)"
    and scan: "burst_scan h ts 0 0 0 = (count, tot)"
  shows "same_task_but_kabi h h'" and "ctx_core (bore_get_ctx h' t) = ctx_core (bore_get_ctx h t)"
    and "lut_ready S \<Longrightarrow> heap_ok h \<Longrightarrow> heap_ok h' \<and> unat (ucast (bc_penalty (grp (bore_get_ctx h' p))) :: u32) \<le> 10239"
  using heap_okD [of h p] update_cache_ok [OF _ _ scan, of S p now]
  by (auto simp: h' ctx_ok_def unat_simps intro!: heap_ok_put)

lemma inherit_from_parent_cases:
  assumes "inherit_from_parent S h parent clone_flags now = Some (h', v)"
  obtains (none) "h' = h" "v = 0"
    | (parent) p count tot where "burst_scan h (children (h p)) 0 0 0 = (count, tot)"
      "h' = (if burst_cache_expired (params S) (subtree (bore_get_ctx h p)) now
        then bore_put_ctx h p ((bore_get_ctx h p)\<lparr>subtree := update_burst_cache S (bore_get_ctx h p) count tot now\<rparr>)
        else h)"
      "v = ucast (bc_penalty (subtree (bore_get_ctx h' p)))"
proof -
  obtain parent' where start: "(if clone_flags AND CLONE_PARENT \<noteq> 0
      then map_option (\<lambda>p. real_parent (h p)) parent else Some parent) = Some parent'"
    using assms by (cases "if clone_flags AND CLONE_PARENT \<noteq> 0
      then map_option (\<lambda>p. real_parent (h p)) parent else Some parent") (simp_all add: inherit_from_parent_def)
  show thesis
  proof (cases parent')
    case None
    then show thesis
      using assms none by (simp add: inherit_from_parent_def start)
  next
    case (Some p)
    obtain count tot where scan: "burst_scan h (children (h p)) 0 0 0 = (count, tot)"
      by fastforce
    show thesis
      using assms Some by (intro parent [OF scan]) (auto simp: inherit_from_parent_def start scan Let_def)
  qed
qed

lemma inherit_from_thread_group_cases:
  assumes "inherit_from_thread_group S h p now = (h', v)"
  obtains (none) "h' = h" "v = 0"
    | (leader) l count tot where "burst_scan h (threads_of h l) 0 0 0 = (count, tot)"
      "h' = (if burst_cache_expired (params S) (grp (bore_get_ctx h l)) now
        then bore_put_ctx h l ((bore_get_ctx h l)\<lparr>grp := update_burst_cache S (bore_get_ctx h l) count tot now\<rparr>)
        else h)"
      "v = ucast (bc_penalty (grp (bore_get_ctx h' l)))"
proof (cases "group_leader (h p)")
  case None
  then show thesis
    using assms none by (simp add: inherit_from_thread_group_def)
next
  case (Some l)
  obtain count tot where scan: "burst_scan h (threads_of h l) 0 0 0 = (count, tot)"
    by fastforce
  show thesis
    using assms Some by (intro leader [OF scan]) (auto simp: inherit_from_thread_group_def scan Let_def)
qed

lemma burst_scan_hub_as_scan:
  "burst_scan_hub h ts count tot scan_count = Some r \<Longrightarrow> \<exists>us. burst_scan h us count tot scan_count = r"
proof (induction ts arbitrary: count tot scan_count)
  case Nil
  then show ?case by (intro exI [of _ "[]"]) simp
next
  case (Cons c cs)
  show ?case
  proof (cases "count \<ge> BURST_CACHE_SAMPLE_LIMIT \<or> scan_count \<ge> BURST_CACHE_SCAN_LIMIT")
    case True
    then show ?thesis
      using Cons.prems by (intro exI [of _ "[]"]) (auto split: if_splits)
  next
    case False
    then obtain d where "sole_descend h c = Some d"
      using Cons.prems by (auto simp: bind_eq_Some_conv split: if_splits)
    with False Cons.prems obtain us where "burst_scan h (d # us) count tot scan_count = r"
      by (auto split: if_splits dest: Cons.IH)
    then show ?thesis by blast
  qed
qed

lemma inherit_from_ancestor_hub_cases:
  assumes "inherit_from_ancestor_hub S h parent clone_flags now = Some (h', v)"
  obtains (none) "h' = h" "v = 0"
    | (hub) p us count tot where "burst_scan h us 0 0 0 = (count, tot)"
      "h' = (if burst_cache_expired (params S) (subtree (bore_get_ctx h p)) now
        then bore_put_ctx h p ((bore_get_ctx h p)\<lparr>subtree := update_burst_cache S (bore_get_ctx h p) count tot now\<rparr>)
        else h)"
      "v = ucast (bc_penalty (subtree (bore_get_ctx h' p)))"
proof -
  obtain anc sole where start: "(if clone_flags AND CLONE_PARENT \<noteq> 0
      then map_option (\<lambda>p. (real_parent (h p), 1 :: u32)) parent else Some (parent, 0)) = Some (anc, sole)"
    using assms by (cases "if clone_flags AND CLONE_PARENT \<noteq> 0
      then map_option (\<lambda>p. (real_parent (h p), 1 :: u32)) parent else Some (parent, 0)")
      (auto simp: inherit_from_ancestor_hub_def)
  show thesis
  proof (cases anc)
    case None
    then show thesis
      using assms none by (simp add: inherit_from_ancestor_hub_def start)
  next
    case (Some a)
    then obtain p where p: "hub_climb h a sole = Some p"
      using assms by (cases "hub_climb h a sole") (simp_all add: inherit_from_ancestor_hub_def start)
    show thesis
    proof (cases "burst_cache_expired (params S) (subtree (bore_get_ctx h p)) now")
      case True
      then obtain count tot where scan: "burst_scan_hub h (children (h p)) 0 0 0 = Some (count, tot)"
        using assms Some p by (cases "burst_scan_hub h (children (h p)) 0 0 0")
          (simp_all add: inherit_from_ancestor_hub_def start prod_eq_iff split_def)
      then obtain us where "burst_scan h us 0 0 0 = (count, tot)"
        using burst_scan_hub_as_scan by blast
      then show thesis
        using assms Some p True scan
        by (intro hub [of us count tot p]) (auto simp: inherit_from_ancestor_hub_def start Let_def)
    next
      case False
      then show thesis
        using assms Some p
        by (intro hub [of "[]" 0 0 p]) (auto simp: inherit_from_ancestor_hub_def start Let_def)
    qed
  qed
qed

interpretation parent_source: penalty_source "\<lambda>S h. inherit_from_parent S h parent clone_flags now"
  for parent clone_flags now
proof unfold_locales
  fix S h h' v t
  assume inh: "inherit_from_parent S h parent clone_flags now = Some (h', v)"
  show "same_task_but_kabi h h'"
    by (rule inherit_from_parent_cases [OF inh]) (auto dest: subtree_update_source(1))
  show "ctx_core (bore_get_ctx h' t) = ctx_core (bore_get_ctx h t)"
    by (rule inherit_from_parent_cases [OF inh]) (auto dest: subtree_update_source(2))
  show "heap_ok h' \<and> unat v \<le> 10239" if "lut_ready S" and "heap_ok h"
    by (rule inherit_from_parent_cases [OF inh]) (use that subtree_update_source(3) in auto)
qed

interpretation hub_source: penalty_source "\<lambda>S h. inherit_from_ancestor_hub S h parent clone_flags now"
  for parent clone_flags now
proof unfold_locales
  fix S h h' v t
  assume inh: "inherit_from_ancestor_hub S h parent clone_flags now = Some (h', v)"
  show "same_task_but_kabi h h'"
    by (rule inherit_from_ancestor_hub_cases [OF inh]) (auto dest: subtree_update_source(1))
  show "ctx_core (bore_get_ctx h' t) = ctx_core (bore_get_ctx h t)"
    by (rule inherit_from_ancestor_hub_cases [OF inh]) (auto dest: subtree_update_source(2))
  show "heap_ok h' \<and> unat v \<le> 10239" if "lut_ready S" and "heap_ok h"
    by (rule inherit_from_ancestor_hub_cases [OF inh]) (use that subtree_update_source(3) in auto)
qed

interpretation group_source: penalty_source "\<lambda>S h. Some (inherit_from_thread_group S h p now)"
  for p now
proof unfold_locales
  fix S h h' v t
  assume "Some (inherit_from_thread_group S h p now) = Some (h', v)"
  then have inh: "inherit_from_thread_group S h p now = (h', v)"
    by simp
  show "same_task_but_kabi h h'"
    by (rule inherit_from_thread_group_cases [OF inh]) (auto dest: group_update_source(1))
  show "ctx_core (bore_get_ctx h' t) = ctx_core (bore_get_ctx h t)"
    by (rule inherit_from_thread_group_cases [OF inh]) (auto dest: group_update_source(2))
  show "heap_ok h' \<and> unat v \<le> 10239" if "lut_ready S" and "heap_ok h"
    by (rule inherit_from_thread_group_cases [OF inh]) (use that group_update_source(3) in auto)
qed

text \<open>The inherited value when the cache has expired, for each source.\<close>

lemma parent_value:
  assumes "lut_ready S" and "burst_cache_expired (params S) (subtree (bore_get_ctx h p)) now"
  shows "\<exists>h' v. inherit_from_parent S h (Some p) 0 now = Some (h', v) \<and>
    unat v = max (mean_penalty h (burst_sample h (children (h p)))) (unat (penalty (bore_get_ctx h p)))"
proof -
  obtain count tot where scan: "burst_scan h (children (h p)) 0 0 0 = (count, tot)"
    by fastforce
  show ?thesis
    using assms(2) update_from_scan [OF assms(1) scan]
    by (simp add: inherit_from_parent_def scan Let_def unat_simps)
qed

lemma group_value:
  assumes "lut_ready S" and "group_leader (h p) = Some l"
    and "burst_cache_expired (params S) (grp (bore_get_ctx h l)) now"
  shows "unat (snd (inherit_from_thread_group S h p now)) =
    max (mean_penalty h (burst_sample h (threads_of h l))) (unat (penalty (bore_get_ctx h l)))"
proof -
  obtain count tot where scan: "burst_scan h (threads_of h l) 0 0 0 = (count, tot)"
    by fastforce
  show ?thesis
    using assms(2,3) update_from_scan [OF assms(1) scan]
    by (simp add: inherit_from_thread_group_def scan Let_def unat_simps)
qed

text \<open>The task the climb starts from, and the number of children the path accounts for there.\<close>

lemma hub_start:
  "(if clone_flags AND CLONE_PARENT \<noteq> 0 then map_option (\<lambda>p. (real_parent (h p), 1 :: u32)) (Some a)
    else Some (Some a, 0)) =
   Some (if clone_flags AND CLONE_PARENT \<noteq> 0 then real_parent (h a) else Some a,
     if clone_flags AND CLONE_PARENT \<noteq> 0 then 1 else 0)"
  by simp

lemma hub_value:
  assumes "lut_ready S" and "task_forest h depth height"
    and "(if clone_flags AND CLONE_PARENT \<noteq> 0 then real_parent (h a) else Some a) = Some b"
    and "hub_climb h b (if clone_flags AND CLONE_PARENT \<noteq> 0 then 1 else 0) = Some hub"
  shows "\<exists>ds h' v. list_all2 (chain_bottom h) (children (h hub)) ds \<and>
    inherit_from_ancestor_hub S h (Some a) clone_flags now = Some (h', v) \<and>
    (if burst_cache_expired (params S) (subtree (bore_get_ctx h hub)) now
     then unat v = max (mean_penalty h (burst_sample h ds)) (unat (penalty (bore_get_ctx h hub))) \<and>
       h' = bore_put_ctx h hub ((bore_get_ctx h hub)\<lparr>subtree := subtree (bore_get_ctx h' hub)\<rparr>)
     else v = ucast (bc_penalty (subtree (bore_get_ctx h hub))) \<and> h' = h)"
proof -
  obtain ds where ds: "list_all2 (\<lambda>c d. sole_descend h c = Some d) (children (h hub)) ds"
      "list_all2 (chain_bottom h) (children (h hub)) ds"
    using chain_bottoms_exist [OF assms(2)] by blast
  obtain count tot where scan: "burst_scan h ds 0 0 0 = (count, tot)"
    by fastforce
  show ?thesis
    using ds(2) update_from_scan [OF assms(1) scan]
    by (intro exI [of _ ds])
      (simp add: inherit_from_ancestor_hub_def hub_start assms(3,4) burst_scan_hub_eq [OF ds(1)] scan
        Let_def unat_simps del: option.map)
qed

lemma hub_none:
  assumes "(if clone_flags AND CLONE_PARENT \<noteq> 0 then real_parent (h a) else Some a) = None"
  shows "inherit_from_ancestor_hub S h (Some a) clone_flags now = Some (h, 0)"
  by (simp add: inherit_from_ancestor_hub_def hub_start assms del: option.map)

lemma hub_returns:
  assumes "task_forest h depth height"
  shows "\<exists>h' v. inherit_from_ancestor_hub S h (Some a) clone_flags now = Some (h', v)"
proof (cases "if clone_flags AND CLONE_PARENT \<noteq> 0 then real_parent (h a) else Some a")
  case None
  then show ?thesis by (blast intro: hub_none)
next
  case (Some b)
  obtain hub where hub: "hub_climb h b (if clone_flags AND CLONE_PARENT \<noteq> 0 then 1 else 0) = Some hub"
    using hub_climb_returns [OF assms] by blast
  obtain ds where "list_all2 (\<lambda>c d. sole_descend h c = Some d) (children (h hub)) ds"
    using chain_bottoms_exist [OF assms] by blast
  then show ?thesis
    by (simp add: inherit_from_ancestor_hub_def hub_start Some hub burst_scan_hub_eq Let_def split_def
        del: option.map)
qed

section \<open>A worked example\<close>

text \<open>
  A family of tasks: 1 has the children 2 and 3, 2 has the only child 4, and 5 is a second thread
  of 1. Tasks 2, 3 and 5 have been running.
\<close>

definition example_bore_state :: bore_state where
  "example_bore_state = \<lparr>params = default_bore_params, bore_reciprocal_lut = lut_loop 1 (replicate 64 0),
    bore_hooks_active = True, bore_sysctl_header = True, bore_proc_entry = True\<rparr>"

definition example_tree :: heap where
  "example_tree = example_heap
    (1 := example_task\<lparr>children := [2, 3], group_leader := Some 1, signal := Some [1, 5]\<rparr>,
     2 := example_task\<lparr>real_parent := Some 1, children := [4]\<rparr>,
     3 := example_task\<lparr>real_parent := Some 1\<rparr>,
     4 := example_task\<lparr>real_parent := Some 2\<rparr>,
     5 := example_task\<lparr>group_leader := Some 1, signal := Some [1, 5]\<rparr>)"

definition example_family :: heap where
  "example_family =
    bore_put_ctx (bore_put_ctx (bore_put_ctx example_tree
      2 (zero_bore_ctx\<lparr>penalty := 2000\<rparr>)) 3 (zero_bore_ctx\<lparr>penalty := 3001\<rparr>)) 5 (zero_bore_ctx\<lparr>penalty := 700\<rparr>)"

lemma example_state_simps [simp]: "lut_ready example_bore_state" "params example_bore_state = default_bore_params"
  by (simp_all add: lut_ready_def example_bore_state_def)

lemma example_tree_ctx [simp]: "bore_get_ctx example_tree p = zero_bore_ctx"
  by (simp add: bore_get_ctx_def example_tree_def example_heap_def example_task_def zero_bore_ctx_load)

lemma example_family_ctx [simp]:
  "bore_get_ctx example_family p = zero_bore_ctx\<lparr>penalty :=
    (if p = 2 then 2000 else if p = 3 then 3001 else if p = 5 then 700 else 0)\<rparr>"
  by (simp add: example_family_def)

lemma example_family_frame: "same_task_but_kabi example_tree example_family"
  unfolding example_family_def by (blast intro: bore_put_frame same_task_but_kabi_trans)

lemma example_tree_fields [simp]:
  "children (example_tree p) = (if p = 1 then [2, 3] else if p = 2 then [4] else [])"
  "real_parent (example_tree p) = (if p = 2 \<or> p = 3 then Some 1 else if p = 4 then Some 2 else None)"
  "group_leader (example_tree p) = (if p = 1 \<or> p = 5 then Some 1 else None)"
  "signal (example_tree p) = (if p = 1 \<or> p = 5 then Some [1, 5] else Some [])"
  "policy (example_tree p) = 0" "flags (example_tree p) = 0" "static_prio (example_tree p) = 120"
  by (simp_all add: example_tree_def example_heap_def example_task_def)

lemmas example_family_fields [simp] = same_task_but_kabiD [OF example_family_frame]

lemma example_family_eligible [simp]: "bore_task_is_eligible example_family p"
  by (simp add: bore_task_is_eligible_def kernel_consts)

lemma example_family_forest:
  "task_forest example_family (\<lambda>t. if t = 1 then 0 else if t = 4 then 2 else 1)
    (\<lambda>t. if t = 1 then 2 else if t = 2 then 1 else 0)"
  by (auto simp: task_forest_def)

lemma example_family_ok [simp]: "heap_ok example_family"
  by (simp add: heap_ok_def ctx_ok_def bc_penalty_def)

lemma example_cache_expired [simp]:
  "burst_cache_expired default_bore_params \<lparr>bc_value = 0\<rparr> 80000000"
  by (simp add: burst_cache_expired_def default_bore_params_def bc_timestamp_def)

lemma example_hub: "ancestor_hub example_family 0 4 hub \<longleftrightarrow> hub = 1"
proof -
  have "hub_climb example_family 4 0 = Some 1"
    by (simp add: hub_climb.simps count_children_upto2_def)
  then have "ancestor_hub example_family 0 4 1"
    using hub_climb_hub [OF example_family_forest, of 0 4 1] by simp
  then show ?thesis using ancestor_hub_unique by blast
qed

lemma example_chains: "list_all2 (chain_bottom example_family) [2, 3] ds \<longleftrightarrow> ds = [4, 3]"
proof -
  have "sole_descend example_family 2 = Some 4" "sole_descend example_family 3 = Some 3"
    by (simp_all add: sole_descend.simps count_children_upto2_def)
  then have "chain_bottom example_family 2 4" "chain_bottom example_family 3 3"
    using sole_descend_bottom [OF example_family_forest] by simp_all
  then show ?thesis
    by (auto simp: list_all2_Cons1 dest: chain_bottom_unique)
qed

lemmas example_mean = burst_sample_def mean_penalty_def threads_of_def

section \<open>Properties\<close>

text \<open>
  C17: the multiplication by the reciprocal table is exact. For every sample size up to the limit
  of 63 and every total such a sample can have, the cached penalty is the larger of the task's own
  penalty and the integer quotient of total by count (no sample counting as zero).
\<close>

theorem reciprocal_average_exact:
  assumes "lut_ready S" and "unat count \<le> 63" and "unat tot \<le> unat count * 65535"
  shows "unat (bc_penalty (update_burst_cache S ctx count tot now)) =
    max (unat tot div unat count) (unat (penalty ctx))"
  using assms by (rule update_burst_cache_penalty)

theorem reciprocal_average_exact_witness:
  "unat (bc_penalty (update_burst_cache example_bore_state zero_bore_ctx 63 645056 5)) = 10238"
  using reciprocal_average_exact [OF example_state_simps(1), of 63 645056 zero_bore_ctx 5]
  by (simp add: zero_bore_ctx_def)

text \<open>
  C28: a cache word written at time \<open>t\<close> is used for its lifetime: it has not expired while the
  age plus the \<open>2 ^ 16\<close> ns granularity of the time stamp is within the lifetime, and it has
  expired as soon as the age exceeds the lifetime.
\<close>

theorem burst_cache_lifetime:
  assumes "t \<le> now"
  shows "(unat now - unat t + 65535 \<le> unat (sched_burst_cache_lifetime P) \<longrightarrow>
      \<not> burst_cache_expired P (update_burst_cache S ctx count tot t) now) \<and>
    (unat (sched_burst_cache_lifetime P) < unat now - unat t \<longrightarrow>
      burst_cache_expired P (update_burst_cache S ctx count tot t) now)"
  using cache_fresh [OF assms] cache_stale [OF assms] by blast

theorem burst_cache_lifetime_witness:
  "\<not> burst_cache_expired default_bore_params
      (update_burst_cache example_bore_state zero_bore_ctx 0 0 1000000) 75000000 \<and>
   burst_cache_expired default_bore_params
      (update_burst_cache example_bore_state zero_bore_ctx 0 0 1000000) 76000001"
  using burst_cache_lifetime [of 1000000 75000000 default_bore_params example_bore_state zero_bore_ctx 0 0]
    burst_cache_lifetime [of 1000000 76000001 default_bore_params example_bore_state zero_bore_ctx 0 0]
  by (simp add: default_bore_params_def)

text \<open>
  C25: with an expired cache, inheriting from the parent gives the larger of the parent's own
  penalty and the mean penalty over the first 63 eligible tasks among its first 126 children, and a
  new thread gets the same from the group leader and the threads of its group.
\<close>

theorem inherited_means:
  assumes "lut_ready S"
  shows "(burst_cache_expired (params S) (subtree (bore_get_ctx h p)) now \<longrightarrow>
      (\<exists>h' v. inherit_from_parent S h (Some p) 0 now = Some (h', v) \<and>
        unat v = max (mean_penalty h (burst_sample h (children (h p)))) (unat (penalty (bore_get_ctx h p))))) \<and>
    (group_leader (h q) = Some l \<and> burst_cache_expired (params S) (grp (bore_get_ctx h l)) now \<longrightarrow>
      unat (snd (inherit_from_thread_group S h q now)) =
        max (mean_penalty h (burst_sample h (threads_of h l))) (unat (penalty (bore_get_ctx h l))))"
  using parent_value [OF assms] group_value [OF assms] by blast

theorem inherited_means_witness:
  "(\<exists>h' v. inherit_from_parent example_bore_state example_family (Some 1) 0 80000000 = Some (h', v) \<and>
     unat v = 2500) \<and>
   unat (snd (inherit_from_thread_group example_bore_state example_family 5 80000000)) = 350"
  using inherited_means [OF example_state_simps(1), of example_family 1 80000000 5 1]
  by (simp add: example_mean flip: numeral_2_eq_2)

text \<open>
  C7: inheriting from the ancestor hub. On an acyclic task tree the call returns, for both ways of
  cloning. The climb starts at the parent, or at its parent for a clone with CLONE_PARENT; without
  a start the answer is 0. Otherwise the hub is the nearest task on the way up that is a root or
  has more children than the path accounts for (any child at the parent itself, a second one
  further up), and there is only one such task. With an expired cache the value is the larger of
  the hub's own penalty and the mean over the sampled bottoms of the chains of only children
  below the hub's children, and only the hub's cache word is written; with a fresh cache the
  cached value is returned and nothing is written.
\<close>

theorem inherit_from_ancestor_hub_mean:
  assumes "lut_ready S" and "task_forest h depth height"
  shows "case if clone_flags AND CLONE_PARENT \<noteq> 0 then real_parent (h a) else Some a of
      None \<Rightarrow> inherit_from_ancestor_hub S h (Some a) clone_flags now = Some (h, 0)
    | Some b \<Rightarrow> (\<exists>hub ds h' v.
        ancestor_hub h (if clone_flags AND CLONE_PARENT \<noteq> 0 then 1 else 0) b hub \<and>
        (\<forall>x. ancestor_hub h (if clone_flags AND CLONE_PARENT \<noteq> 0 then 1 else 0) b x \<longrightarrow> x = hub) \<and>
        list_all2 (chain_bottom h) (children (h hub)) ds \<and>
        inherit_from_ancestor_hub S h (Some a) clone_flags now = Some (h', v) \<and>
        (if burst_cache_expired (params S) (subtree (bore_get_ctx h hub)) now
         then unat v = max (mean_penalty h (burst_sample h ds)) (unat (penalty (bore_get_ctx h hub))) \<and>
           h' = bore_put_ctx h hub ((bore_get_ctx h hub)\<lparr>subtree := subtree (bore_get_ctx h' hub)\<rparr>)
         else v = ucast (bc_penalty (subtree (bore_get_ctx h hub))) \<and> h' = h))"
proof (cases "if clone_flags AND CLONE_PARENT \<noteq> 0 then real_parent (h a) else Some a")
  case None
  then show ?thesis by (simp only: option.case hub_none)
next
  case (Some b)
  let ?n = "if clone_flags AND CLONE_PARENT \<noteq> 0 then 1 else 0 :: u32"
  obtain hub where hub: "hub_climb h b ?n = Some hub"
    using hub_climb_returns [OF assms(2)] by blast
  have "ancestor_hub h (if clone_flags AND CLONE_PARENT \<noteq> 0 then 1 else 0) b hub"
    using hub_climb_hub [OF assms(2) _ hub] by (cases "clone_flags AND CLONE_PARENT \<noteq> 0") simp_all
  moreover from this have "\<forall>x. ancestor_hub h (if clone_flags AND CLONE_PARENT \<noteq> 0 then 1 else 0) b x \<longrightarrow> x = hub"
    using ancestor_hub_unique by blast
  ultimately show ?thesis
    using hub_value [OF assms Some hub, of now] unfolding Some option.case by blast
qed

theorem inherit_from_ancestor_hub_mean_witness:
  "\<exists>h' v. inherit_from_ancestor_hub example_bore_state example_family (Some 4) 0 80000000 = Some (h', v) \<and>
    unat v = 1500"
  using inherit_from_ancestor_hub_mean [OF example_state_simps(1) example_family_forest, of 4 0 80000000]
  by (auto simp: example_hub example_chains example_mean simp flip: numeral_2_eq_2)

end
