(* ===== verification/Bore_Probes.thy ===== *)
theory Bore_Probes
  imports Bore_Cache
begin

text \<open>
  The vendor-hook handlers of \<^verbatim>\<open>bore_sched_main.c\<close>: the effective priority, the penalty update
  and the probes called when a task runs, sleeps, yields, forks, is initialised or is given a load
  weight. The lemmas give every handler its meaning over the natural numbers and show that each keeps
  the bound of all stored penalties.
\<close>

section \<open>Definitions\<close>

definition bore_score :: "bore_ctx \<Rightarrow> u8" where
  "bore_score ctx = ucast (drop_bit 8 (penalty ctx))"

definition effective_prio_bore :: "bore_params \<Rightarrow> task_struct \<Rightarrow> bore_ctx \<Rightarrow> u8" where
  "effective_prio_bore P p ctx =
    (let prio = static_prio p - MAX_RT_PRIO;
         prio = (if sched_bore P \<noteq> 0 then prio + ucast (bore_score ctx) else prio);
         prio = prio AND NOT (signed_drop_bit 31 prio);
         diff = prio - 39;
         prio = prio - (diff AND NOT (signed_drop_bit 31 diff))
     in ucast prio)"

text \<open>
  An \<open>int *new_prio\<close> argument is the value it points to, \<^const>\<open>None\<close> for NULL; the handler
  returns what it points to afterwards.
\<close>

definition update_penalty ::
  "bore_params \<Rightarrow> task_struct \<Rightarrow> bore_ctx \<Rightarrow> s32 option \<Rightarrow> bore_ctx \<times> s32 option" where
  "update_penalty P p ctx new_prio =
    (let prev_prio = effective_prio_bore P p ctx;
         diff = ucast (curr_penalty ctx) - ucast (prev_penalty ctx) :: s32;
         max_val = ucast (ucast (curr_penalty ctx) - (diff AND signed_drop_bit 31 diff)) :: u16;
         is_protected = of_bool (flags p AND PF_KTHREAD \<noteq> 0 \<or> sint (static_prio p) < 120) :: u32;
         ctx' = ctx\<lparr>penalty := ucast ((ucast max_val :: s32) AND - of_bool (is_protected = 0))\<rparr>;
         calculated_new_prio = effective_prio_bore P p ctx'
     in (ctx', if calculated_new_prio \<noteq> prev_prio
               then map_option (\<lambda>_. ucast calculated_new_prio) new_prio else new_prio))"

definition restart_burst_bore ::
  "bore_params \<Rightarrow> task_struct \<Rightarrow> bore_ctx \<Rightarrow> s32 option \<Rightarrow> (bore_ctx \<times> s32 option) option" where
  "restart_burst_bore P p ctx new_prio =
    do {
      new_penalty \<leftarrow> binary_smooth P (ucast (curr_penalty ctx)) (ucast (prev_penalty ctx));
      Some (update_penalty P p
        (ctx\<lparr>prev_penalty := ucast new_penalty, curr_penalty := 0, burst_time := 0\<rparr>) new_prio)
    }"

definition probe_bore_update_curr ::
  "bore_state \<Rightarrow> heap \<Rightarrow> task option \<Rightarrow> u64 \<Rightarrow> s32 option \<Rightarrow> heap \<times> s32 option" where
  "probe_bore_update_curr S h p delta_exec new_prio =
    (case p of
       None \<Rightarrow> (h, new_prio)
     | Some p \<Rightarrow>
         if sched_bore (params S) = 0 then (h, new_prio)
         else let ctx = bore_get_ctx h p in
           if stop_update ctx \<noteq> 0 then (h, new_prio)
           else let ctx = ctx\<lparr>burst_time := burst_time ctx + delta_exec\<rparr>;
                    ctx = ctx\<lparr>curr_penalty := ucast (calc_burst_penalty (params S) (burst_time ctx))\<rparr>
                in if curr_penalty ctx \<le> prev_penalty ctx then (bore_put_ctx h p ctx, new_prio)
                   else let (ctx, new_prio) = update_penalty (params S) (h p) ctx new_prio
                        in (bore_put_ctx h p ctx, new_prio))"

text \<open>\<^const>\<open>None\<close> is the undefined shift of \<open>binary_smooth\<close>.\<close>

definition probe_bore_dequeue_task_fair ::
  "bore_state \<Rightarrow> heap \<Rightarrow> task option \<Rightarrow> s32 \<Rightarrow> heap option" where
  "probe_bore_dequeue_task_fair S h p fl =
    (case p of
       None \<Rightarrow> Some h
     | Some p \<Rightarrow>
         if sched_bore (params S) = 0 \<or> fl AND DEQUEUE_SLEEP = 0 then Some h
         else do {
           (ctx, _) \<leftarrow> restart_burst_bore (params S) (h p) (bore_get_ctx h p) None;
           Some (bore_put_ctx h p ctx)
         })"

definition probe_bore_set_next_entity :: "bore_state \<Rightarrow> heap \<Rightarrow> task option \<Rightarrow> heap" where
  "probe_bore_set_next_entity S h se = h"

definition probe_bore_yield_task_fair :: "bore_state \<Rightarrow> heap \<Rightarrow> task option \<Rightarrow> heap option" where
  "probe_bore_yield_task_fair S h p =
    (case p of
       None \<Rightarrow> Some h
     | Some p \<Rightarrow>
         if sched_bore (params S) = 0 then Some h
         else do {
           (ctx, _) \<leftarrow> restart_burst_bore (params S) (h p) (bore_get_ctx h p) None;
           Some (bore_put_ctx h p ctx)
         })"

text \<open>
  \<open>current\<close> is the forking task, \<open>now\<close> the value \<open>ktime_get_ns\<close> returns. \<^const>\<open>None\<close>: the
  walk to the ancestor hub does not return.
\<close>

definition fork_inherit ::
  "bore_state \<Rightarrow> heap \<Rightarrow> task option \<Rightarrow> task \<Rightarrow> u64 \<Rightarrow> (heap \<times> u32) option" where
  "fork_inherit S h parent p now =
    (case parent of
       Some q \<Rightarrow>
         if group_leader (h p) = group_leader (h q) \<and> p \<noteq> q
         then Some (inherit_from_thread_group S h q now)
         else if sched_burst_inherit_type (params S) = 2
         then inherit_from_ancestor_hub S h parent 0 now
         else if sched_burst_inherit_type (params S) = 1
         then inherit_from_parent S h parent 0 now
         else Some (h, 0)
     | None \<Rightarrow>
         if sched_burst_inherit_type (params S) = 2
         then inherit_from_ancestor_hub S h parent 0 now
         else if sched_burst_inherit_type (params S) = 1
         then inherit_from_parent S h parent 0 now
         else Some (h, 0))"

definition fork_finish :: "bore_state \<Rightarrow> heap \<Rightarrow> task \<Rightarrow> u32 \<Rightarrow> heap" where
  "fork_finish S h p inherited_penalty =
    (let ctx = bore_get_ctx h p;
         ctx = (if ucast (prev_penalty ctx) < inherited_penalty
                then ctx\<lparr>prev_penalty := ucast inherited_penalty\<rparr> else ctx);
         ctx = ctx\<lparr>curr_penalty := 0, burst_time := 0, stop_update := 0, futex_waiting := 0\<rparr>
     in bore_put_ctx h p (fst (update_penalty (params S) (h p) ctx None)))"

definition probe_bore_task_fork ::
  "bore_state \<Rightarrow> heap \<Rightarrow> task option \<Rightarrow> task option \<Rightarrow> u64 \<Rightarrow> heap option" where
  "probe_bore_task_fork S h current p now =
    (case p of
       None \<Rightarrow> Some h
     | Some p \<Rightarrow>
         if sched_bore (params S) = 0 \<or> \<not> bore_task_is_eligible h p then Some h
         else do {
           (h', inherited_penalty) \<leftarrow> fork_inherit S h current p now;
           Some (fork_finish S h' p inherited_penalty)
         })"

definition probe_bore_init_entity :: "heap \<Rightarrow> task option \<Rightarrow> heap" where
  "probe_bore_init_entity h se =
    (case se of None \<Rightarrow> h | Some se \<Rightarrow> bore_put_ctx h se zero_bore_ctx)"

definition probe_bore_set_load_weight ::
  "bore_state \<Rightarrow> heap \<Rightarrow> task option \<Rightarrow> s32 option \<Rightarrow> s32 option" where
  "probe_bore_set_load_weight S h p prio =
    (case p of
       None \<Rightarrow> prio
     | Some p \<Rightarrow>
         if sched_bore (params S) = 0 \<or> prio = None \<or> \<not> bore_task_is_eligible h p then prio
         else Some (ucast (effective_prio_bore (params S) (h p) (bore_get_ctx h p))))"

text \<open>Tasks whose penalty is always zero: kernel threads and tasks with a raised priority.\<close>

definition is_protected :: "task_struct \<Rightarrow> bool" where
  "is_protected p \<longleftrightarrow> flags p AND PF_KTHREAD \<noteq> 0 \<or> sint (static_prio p) < 120"

section \<open>Penalty and priority\<close>

lemma update_penalty_ctx:
  "fst (update_penalty P p ctx new_prio) =
    ctx\<lparr>penalty := (if is_protected p then 0 else max (curr_penalty ctx) (prev_penalty ctx))\<rparr>"
proof -
  let ?c = "curr_penalty ctx" and ?r = "prev_penalty ctx"
  let ?diff = "ucast ?c - ucast ?r :: s32"
  have "sint ?diff = int (unat ?c) - int (unat ?r)"
    by (subst sint_diff_small) (simp_all add: unat_simps order_less_trans [OF unat_u16_lt])
  then have "ucast (ucast ?c - (?diff AND signed_drop_bit 31 ?diff)) = max ?c ?r"
    by (auto simp: neg_part_s32 max_def word_le_nat_alt word_unat_eq_iff)
  then show ?thesis
    by (simp add: update_penalty_def Let_def is_protected_def)
qed

lemma update_penalty_prio:
  "snd (update_penalty P p ctx new_prio) =
    (let ctx' = fst (update_penalty P p ctx new_prio)
     in if effective_prio_bore P p ctx' = effective_prio_bore P p ctx then new_prio
        else map_option (\<lambda>_. ucast (effective_prio_bore P p ctx')) new_prio)"
  by (simp add: update_penalty_def Let_def)

lemma bore_score_le:
  assumes "unat (penalty ctx) \<le> 10239"
  shows "unat (bore_score ctx) = unat (penalty ctx) div 256" and "unat (bore_score ctx) \<le> 39"
proof -
  have "unat (drop_bit 8 (penalty ctx)) = unat (penalty ctx) div 256"
    by (simp only: unat_drop_bit_eq) (simp add: drop_bit_eq_div)
  moreover have "unat (penalty ctx) div 256 \<le> 39"
    using assms by linarith
  ultimately show "unat (bore_score ctx) = unat (penalty ctx) div 256"
    by (simp add: bore_score_def unsigned_ucast_eq take_bit_nat_eq_self)
  then show "unat (bore_score ctx) \<le> 39"
    using \<open>unat (penalty ctx) div 256 \<le> 39\<close> by simp
qed

text \<open>The two branch-free clamps of the effective priority.\<close>

lemma clamp_prio:
  fixes x :: s32
  defines "y \<equiv> x AND NOT (signed_drop_bit 31 x)"
  defines "d \<equiv> y - 39"
  shows "unat (ucast (y - (d AND NOT (signed_drop_bit 31 d))) :: u8) = nat (min 39 (max 0 (sint x)))"
proof -
  have y: "y = (if sint x < 0 then 0 else x)"
    by (simp add: y_def relu_s32)
  have sy: "sint y = max 0 (sint x)"
    by (simp add: y)
  have "sint x < 2 ^ 31"
    using sint_lt [of x] by simp
  then have sd: "sint d = sint y - 39"
    unfolding d_def using sy by (subst sint_minus_small) simp_all
  show ?thesis
  proof (cases "sint d < 0")
    case True
    then have e: "y - (d AND NOT (signed_drop_bit 31 d)) = y"
      by (simp add: relu_s32)
    have small: "sint y < 39" "0 \<le> sint y"
      using True sd sy by auto
    then have "unat y = nat (sint y)"
      using unat_of_nonneg_sint [of y] by linarith
    then show ?thesis
      unfolding e using small sy by (simp add: unsigned_ucast_eq take_bit_nat_eq_self)
  next
    case False
    then have "y - (d AND NOT (signed_drop_bit 31 d)) = 39"
      by (simp add: relu_s32 d_def)
    then show ?thesis
      using False sd sy by simp
  qed
qed

lemma effective_prio_le_39: "unat (effective_prio_bore P p ctx) \<le> 39"
  unfolding effective_prio_bore_def Let_def by (simp only: clamp_prio)

text \<open>In the kernel's range of static priorities nothing wraps.\<close>

lemma effective_prio_value:
  assumes "0 \<le> sint (static_prio p)" and "sint (static_prio p) \<le> 139" and "unat (penalty ctx) \<le> 10239"
  shows "int (unat (effective_prio_bore P p ctx)) =
    min 39 (max 0 (sint (static_prio p) - 100 +
      (if sched_bore P = 0 then 0 else int (unat (penalty ctx) div 256))))"
proof -
  let ?prio = "static_prio p - MAX_RT_PRIO"
  let ?prio' = "if sched_bore P \<noteq> 0 then ?prio + ucast (bore_score ctx) else ?prio"
  have prio: "sint ?prio = sint (static_prio p) - 100"
    using assms(1,2) by (subst sint_minus_small) (simp_all add: MAX_RT_PRIO_def)
  have "unat (ucast (bore_score ctx) :: s32) = unat (penalty ctx) div 256"
    using assms(3) by (simp add: unat_simps bore_score_le)
  then have score: "sint (ucast (bore_score ctx) :: s32) = int (unat (penalty ctx) div 256)"
    using assms(3) by (subst sint_of_small) simp_all
  have "sint (?prio + ucast (bore_score ctx)) = sint ?prio + int (unat (penalty ctx) div 256)"
    using assms by (subst sint_add_small) (simp_all add: prio score)
  then have "sint ?prio' = sint (static_prio p) - 100 +
      (if sched_bore P = 0 then 0 else int (unat (penalty ctx) div 256))"
    by (simp add: prio)
  then show ?thesis
    unfolding effective_prio_bore_def Let_def by (simp only: clamp_prio)
qed

section \<open>Bounds kept by the handlers\<close>

lemma ctx_ok_zero [simp]: "ctx_ok zero_bore_ctx"
  by (simp add: ctx_ok_def zero_bore_ctx_def bc_penalty_def)

lemma ctx_ok_update_penalty:
  assumes "ctx_ok ctx"
  shows "ctx_ok (fst (update_penalty P p ctx new_prio))"
  using assms by (simp add: update_penalty_ctx ctx_ok_def unat_max_word)

lemma unat_curr_penalty_calc: "unat (ucast (calc_burst_penalty P t) :: u16) = unat (calc_burst_penalty P t)"
  using calc_burst_penalty_bound [of P t] by (simp add: unat_ucast_u32_u16)

lemma update_curr_keeps_ok:
  assumes "heap_ok h"
  shows "heap_ok (fst (probe_bore_update_curr S h p delta new_prio))"
proof (cases p)
  case (Some t)
  define ctx where "ctx = (bore_get_ctx h t)\<lparr>burst_time := burst_time (bore_get_ctx h t) + delta,
    curr_penalty := ucast (calc_burst_penalty (params S) (burst_time (bore_get_ctx h t) + delta))\<rparr>"
  have ok: "ctx_ok ctx"
    using heap_okD [OF assms, of t] calc_burst_penalty_bound
    by (simp add: ctx_def ctx_ok_def unat_curr_penalty_calc)
  then have "heap_ok (bore_put_ctx h t ctx)"
    and "heap_ok (bore_put_ctx h t (fst (update_penalty (params S) (h t) ctx new_prio)))"
    using assms by (auto intro: heap_ok_put ctx_ok_update_penalty)
  then show ?thesis
    using Some assms by (simp add: probe_bore_update_curr_def Let_def split_def ctx_def)
qed (simp add: probe_bore_update_curr_def assms)

lemma restart_burst_ctx:
  assumes "unat (sched_burst_smoothness P) < 32"
  shows "\<exists>r. binary_smooth P (ucast (curr_penalty ctx)) (ucast (prev_penalty ctx)) = Some r \<and>
    unat (ucast r :: u16) = unat r \<and> unat r \<le> max (unat (curr_penalty ctx)) (unat (prev_penalty ctx)) \<and>
    restart_burst_bore P p ctx new_prio =
      Some (update_penalty P p (ctx\<lparr>prev_penalty := ucast r, curr_penalty := 0, burst_time := 0\<rparr>) new_prio)"
proof -
  let ?c = "ucast (curr_penalty ctx) :: u32"
  have "unat ?c < 2 ^ 31"
    using unat_u16_lt [of "curr_penalty ctx"] by (simp add: unat_simps order_less_trans [OF unat_u16_lt])
  then obtain r where r: "binary_smooth P ?c (ucast (prev_penalty ctx)) = Some r" "unat r \<le> unat ?c"
    using binary_smooth_between [OF assms] by blast
  moreover have "unat r < 65536"
    using r(2) unat_u16_lt [of "curr_penalty ctx"] by (simp only: unat_ucast_u16_u32)
  ultimately show ?thesis
    by (simp add: restart_burst_bore_def unat_simps)
qed

lemma restart_burst_ok:
  assumes "ctx_ok ctx" and "restart_burst_bore P p ctx new_prio = Some (ctx', np)"
  shows "ctx_ok ctx'"
proof -
  have "unat (sched_burst_smoothness P) < 32"
    using assms(2) binary_smooth_undefined [of P] by (force simp: restart_burst_bore_def not_le [symmetric])
  from restart_burst_ctx [OF this, of ctx p new_prio] obtain r :: u32 where r: "unat (ucast r :: u16) = unat r"
      "unat r \<le> max (unat (curr_penalty ctx)) (unat (prev_penalty ctx))"
      "restart_burst_bore P p ctx new_prio =
        Some (update_penalty P p (ctx\<lparr>prev_penalty := ucast r, curr_penalty := 0, burst_time := 0\<rparr>) new_prio)"
    by blast
  have "ctx_ok (ctx\<lparr>prev_penalty := ucast r, curr_penalty := 0, burst_time := 0\<rparr>)"
    using r(1,2) assms(1) by (auto simp: ctx_ok_def)
  then have "ctx_ok (fst (update_penalty P p (ctx\<lparr>prev_penalty := ucast r, curr_penalty := 0, burst_time := 0\<rparr>) new_prio))"
    by (rule ctx_ok_update_penalty)
  then show ?thesis
    using r(3) assms(2) by (metis fst_conv option.inject)
qed

lemma dequeue_keeps_ok:
  assumes "heap_ok h" and "probe_bore_dequeue_task_fair S h p fl = Some h'"
  shows "heap_ok h'"
  using assms restart_burst_ok [OF heap_okD [OF assms(1)]]
  by (auto simp: probe_bore_dequeue_task_fair_def bind_eq_Some_conv intro: heap_ok_put split: option.splits if_splits)

lemma yield_keeps_ok:
  assumes "heap_ok h" and "probe_bore_yield_task_fair S h p = Some h'"
  shows "heap_ok h'"
  using assms restart_burst_ok [OF heap_okD [OF assms(1)]]
  by (auto simp: probe_bore_yield_task_fair_def bind_eq_Some_conv intro: heap_ok_put split: option.splits if_splits)

lemma init_entity_keeps_ok: "heap_ok h \<Longrightarrow> heap_ok (probe_bore_init_entity h se)"
  by (auto simp: probe_bore_init_entity_def intro: heap_ok_put split: option.split)

lemma fork_finish_ok:
  assumes "heap_ok h" and "unat v \<le> 10239"
  shows "heap_ok (fork_finish S h p v)"
proof -
  have "unat (ucast v :: u16) \<le> 10239"
    using assms(2) by (simp add: unat_ucast_u32_u16)
  then show ?thesis
    using heap_okD [OF assms(1), of p]
    by (auto simp: fork_finish_def Let_def ctx_ok_def intro!: heap_ok_put [OF assms(1)] ctx_ok_update_penalty)
qed

text \<open>The fork handler, over any source that keeps the contract.\<close>

context penalty_source
begin

lemma finish_keeps_ok:
  assumes "inherit S h = Some (h', v)" and "lut_ready S" and "heap_ok h"
  shows "heap_ok (fork_finish S h' p v)"
  using source_ok [OF assms] by (intro fork_finish_ok) simp_all

lemma finish_frame:
  assumes "inherit S h = Some (h', v)"
  shows "same_task_but_kabi h (fork_finish S h' p v)"
  using source_frame [OF assms] by (auto simp: fork_finish_def Let_def intro: same_task_but_kabi_trans)

text \<open>The child's context depends on the inherited value alone; no other task's own penalty moves.\<close>

lemma finish_core:
  assumes "inherit S h = Some (h', v)"
  shows "t \<noteq> p \<Longrightarrow> ctx_core (bore_get_ctx (fork_finish S h' p v) t) = ctx_core (bore_get_ctx h t)"
    and "prev_penalty (bore_get_ctx (fork_finish S h' p v) p) =
      (if ucast (prev_penalty (bore_get_ctx h p)) < v then ucast v else prev_penalty (bore_get_ctx h p))"
  using source_core [OF assms] ctx_core_eqD(2) [OF source_core [OF assms, of p]]
  by (simp_all add: fork_finish_def Let_def update_penalty_ctx)

end

interpretation no_source: penalty_source "\<lambda>S h. Some (h, 0)"
  by unfold_locales auto

text \<open>Whichever source the handler picks, it keeps the contract.\<close>

lemma fork_inherit_cases:
  assumes "fork_inherit S h parent p now = Some r"
  obtains (group) q where "parent = Some q" "Some (inherit_from_thread_group S h q now) = Some r"
    | (hub) "inherit_from_ancestor_hub S h parent 0 now = Some r"
    | (parent) "inherit_from_parent S h parent 0 now = Some r"
    | (none) "Some (h, 0) = Some r"
  using assms by (auto simp: fork_inherit_def split: option.splits if_splits)

interpretation fork_source: penalty_source "\<lambda>S h. fork_inherit S h parent p now"
  for parent p now
proof unfold_locales
  fix S h h' v t
  assume inh: "fork_inherit S h parent p now = Some (h', v)"
  show "same_task_but_kabi h h'"
    by (rule fork_inherit_cases [OF inh])
      (rule group_source.source_frame hub_source.source_frame parent_source.source_frame
        no_source.source_frame; assumption)+
  show "ctx_core (bore_get_ctx h' t) = ctx_core (bore_get_ctx h t)"
    by (rule fork_inherit_cases [OF inh])
      (rule group_source.source_core hub_source.source_core parent_source.source_core
        no_source.source_core; assumption)+
  show "heap_ok h' \<and> unat v \<le> 10239" if "lut_ready S" and "heap_ok h"
    by (rule fork_inherit_cases [OF inh])
      (rule group_source.source_ok [OF _ that] hub_source.source_ok [OF _ that]
        parent_source.source_ok [OF _ that] no_source.source_ok [OF _ that]; assumption)+
qed

lemma fork_cases:
  assumes "probe_bore_task_fork S h current p now = Some h'"
  obtains (skip) "h' = h"
    | (fork) t h1 v where "p = Some t" "fork_inherit S h current t now = Some (h1, v)" "h' = fork_finish S h1 t v"
  using assms by (auto simp: probe_bore_task_fork_def bind_eq_Some_conv split: option.splits if_splits)

lemma fork_keeps_ok:
  assumes "heap_ok h" and "lut_ready S" and "probe_bore_task_fork S h current p now = Some h'"
  shows "heap_ok h'"
  by (rule fork_cases [OF assms(3)]) (use assms fork_source.finish_keeps_ok in auto)

end
