(* ===== verification/Bore_Spec.thy ===== *)
theory Bore_Spec
  imports Bore_Probes
begin

text \<open>
  What BORE promises, over natural numbers and without bit tricks, and the proof that the hook
  handlers implement it. A task's burst is its run time since it last slept, the smoothed penalty
  of earlier bursts, the penalty of this burst and the penalty in force. The refinement lemmas
  relate the packed 16-bit context in the reserved words to this abstract burst through
  \<open>abs_burst\<close>.
\<close>

section \<open>Definitions\<close>

record burst =
  b_time :: nat
  b_prev :: nat
  b_curr :: nat
  b_penalty :: nat

definition abs_burst :: "bore_ctx \<Rightarrow> burst" where
  "abs_burst c = \<lparr>b_time = unat (burst_time c), b_prev = unat (prev_penalty c),
    b_curr = unat (curr_penalty c), b_penalty = unat (penalty c)\<rparr>"

text \<open>
  The fields of a context that are not part of the burst: the two flags and the two caches. With
  \<open>abs_burst\<close> they make up the whole context.
\<close>

definition ctx_rest :: "bore_ctx \<Rightarrow> u8 \<times> u8 \<times> bore_bc \<times> bore_bc" where
  "ctx_rest c = (stop_update c, futex_waiting c, subtree c, grp c)"

definition spec_penalty :: "bool \<Rightarrow> nat \<Rightarrow> nat \<Rightarrow> nat" where
  "spec_penalty prot c r = (if prot then 0 else max c r)"

definition raw_penalty :: "bore_params \<Rightarrow> nat \<Rightarrow> nat" where
  "raw_penalty P t = penalty_of_greed P (greed_spec t)"

text \<open>The task runs for \<open>d\<close> nanoseconds.\<close>

definition spec_run :: "bore_params \<Rightarrow> bool \<Rightarrow> nat \<Rightarrow> burst \<Rightarrow> burst" where
  "spec_run P prot d b =
    (let t = b_time b + d; c = raw_penalty P t
     in b\<lparr>b_time := t, b_curr := c,
          b_penalty := (if c \<le> b_prev b then b_penalty b else spec_penalty prot c (b_prev b))\<rparr>)"

text \<open>The burst ends.\<close>

definition spec_restart :: "bore_params \<Rightarrow> bool \<Rightarrow> burst \<Rightarrow> burst" where
  "spec_restart P prot b =
    (let r = smooth_spec (unat (sched_burst_smoothness P)) (b_curr b) (b_prev b)
     in \<lparr>b_time = 0, b_prev = r, b_curr = 0, b_penalty = spec_penalty prot 0 r\<rparr>)"

text \<open>The task is forked and inherits the penalty \<open>v\<close>.\<close>

definition spec_fork :: "bool \<Rightarrow> nat \<Rightarrow> burst \<Rightarrow> burst" where
  "spec_fork prot v b =
    (let r = max (b_prev b) v
     in \<lparr>b_time = 0, b_prev = r, b_curr = 0, b_penalty = spec_penalty prot 0 r\<rparr>)"

text \<open>The penalty in force is the one the run time calls for.\<close>

definition coherent :: "bore_params \<Rightarrow> bool \<Rightarrow> burst \<Rightarrow> bool" where
  "coherent P prot b \<longleftrightarrow> b_curr b = raw_penalty P (b_time b) \<and>
    b_penalty b = spec_penalty prot (b_curr b) (b_prev b)"

text \<open>A burst accounted in several ticks.\<close>

definition run_ticks :: "bore_state \<Rightarrow> heap \<Rightarrow> task \<Rightarrow> u64 list \<Rightarrow> heap" where
  "run_ticks S h p ds = foldl (\<lambda>h d. fst (probe_bore_update_curr S h (Some p) d None)) h ds"

section \<open>Refinement\<close>

lemma ctx_by_parts: "abs_burst c = abs_burst d \<Longrightarrow> ctx_rest c = ctx_rest d \<Longrightarrow> c = d"
  by (cases c; cases d) (simp add: abs_burst_def ctx_rest_def word_unat_eq_iff)

lemma update_penalty_rest [simp]: "ctx_rest (fst (update_penalty P p ctx np)) = ctx_rest ctx"
  by (simp add: ctx_rest_def update_penalty_ctx)

lemma calc_burst_penalty_raw:
  "sane_tunables P \<Longrightarrow> unat (calc_burst_penalty P t) = raw_penalty P (unat t)"
  by (simp add: calc_burst_penalty_greed raw_penalty_def log2p1_spec)

lemma abs_update_penalty:
  "abs_burst (fst (update_penalty P p ctx np)) =
    (abs_burst ctx)\<lparr>b_penalty := spec_penalty (is_protected p) (unat (curr_penalty ctx)) (unat (prev_penalty ctx))\<rparr>"
  by (simp add: abs_burst_def update_penalty_ctx spec_penalty_def unat_max_word)

lemma update_curr_refines:
  assumes "sane_tunables (params S)" and "sched_bore (params S) \<noteq> 0"
    and "stop_update (bore_get_ctx h p) = 0"
    and "unat (burst_time (bore_get_ctx h p)) + unat d < 2 ^ 64"
  shows "abs_burst (bore_get_ctx (fst (probe_bore_update_curr S h (Some p) d np)) p) =
    spec_run (params S) (is_protected (h p)) (unat d) (abs_burst (bore_get_ctx h p))"
proof -
  let ?c = "bore_get_ctx h p"
  have time: "unat (burst_time ?c + d) = unat (burst_time ?c) + unat d"
    using assms(4) by (subst unat_add_lem [THEN iffD1]) simp_all
  define ctx where "ctx = ?c\<lparr>burst_time := burst_time ?c + d,
    curr_penalty := ucast (calc_burst_penalty (params S) (burst_time ?c + d))\<rparr>"
  have curr: "unat (curr_penalty ctx) = raw_penalty (params S) (unat (burst_time ?c) + unat d)"
    by (simp add: ctx_def unat_curr_penalty_calc calc_burst_penalty_raw [OF assms(1)] time)
  have "fst (probe_bore_update_curr S h (Some p) d np) = bore_put_ctx h p
      (if curr_penalty ctx \<le> prev_penalty ctx then ctx else fst (update_penalty (params S) (h p) ctx np))"
    using assms(2,3) by (simp add: probe_bore_update_curr_def Let_def split_def ctx_def)
  then show ?thesis
    using curr by (simp add: abs_update_penalty spec_run_def Let_def word_le_nat_alt)
      (simp add: abs_burst_def ctx_def time)
qed

lemma restart_refines:
  assumes "unat (sched_burst_smoothness P) < 32"
  shows "\<exists>ctx' np'. restart_burst_bore P p ctx np = Some (ctx', np') \<and>
    abs_burst ctx' = spec_restart P (is_protected p) (abs_burst ctx) \<and> ctx_rest ctx' = ctx_rest ctx"
proof -
  from restart_burst_ctx [OF assms, of ctx p np] obtain r :: u32 where r:
      "binary_smooth P (ucast (curr_penalty ctx)) (ucast (prev_penalty ctx)) = Some r"
      "unat (ucast r :: u16) = unat r"
      "restart_burst_bore P p ctx np =
        Some (update_penalty P p (ctx\<lparr>prev_penalty := ucast r, curr_penalty := 0, burst_time := 0\<rparr>) np)"
    by blast
  have "unat r = smooth_spec (unat (sched_burst_smoothness P)) (unat (curr_penalty ctx)) (unat (prev_penalty ctx))"
    using binary_smooth_spec [OF assms, of "ucast (curr_penalty ctx)" "ucast (prev_penalty ctx)"] r(1)
    by (simp add: unat_simps order_less_trans [OF unat_u16_lt])
  then show ?thesis
    using r(2,3) abs_update_penalty [of P p "ctx\<lparr>prev_penalty := ucast r, curr_penalty := 0, burst_time := 0\<rparr>" np]
      update_penalty_ctx [of P p "ctx\<lparr>prev_penalty := ucast r, curr_penalty := 0, burst_time := 0\<rparr>" np]
    by (cases "update_penalty P p (ctx\<lparr>prev_penalty := ucast r, curr_penalty := 0, burst_time := 0\<rparr>) np")
      (simp add: spec_restart_def abs_burst_def ctx_rest_def Let_def)
qed

lemma fork_finish_refines:
  assumes "unat v \<le> 10239"
  shows "abs_burst (bore_get_ctx (fork_finish S h p v) p) =
    spec_fork (is_protected (h p)) (unat v) (abs_burst (bore_get_ctx h p))"
  using assms by (auto simp: fork_finish_def Let_def update_penalty_ctx spec_fork_def abs_burst_def
      spec_penalty_def word_less_nat_alt word_le_nat_alt unat_simps)

section \<open>Coherence within a burst\<close>

lemma raw_penalty_mono: "t \<le> u \<Longrightarrow> raw_penalty P t \<le> raw_penalty P u"
  by (simp add: raw_penalty_def penalty_of_greed_mono greed_spec_mono)

lemma spec_run_coherent: "coherent P prot b \<Longrightarrow> coherent P prot (spec_run P prot d b)"
  using raw_penalty_mono [of "b_time b" "b_time b + d" P]
  by (auto simp: coherent_def spec_run_def Let_def spec_penalty_def max_def)

lemma spec_restart_coherent: "coherent P prot (spec_restart P prot b)"
  by (simp add: coherent_def spec_restart_def Let_def raw_penalty_def greed_spec_def penalty_of_greed_def)

lemma spec_fork_coherent: "coherent P prot (spec_fork prot v b)"
  by (simp add: coherent_def spec_fork_def Let_def raw_penalty_def greed_spec_def penalty_of_greed_def)

lemma update_curr_frame:
  "same_task_but_kabi h (fst (probe_bore_update_curr S h p d np))"
  "stop_update (bore_get_ctx (fst (probe_bore_update_curr S h p d np)) t) = stop_update (bore_get_ctx h t)"
  "ctx_rest (bore_get_ctx (fst (probe_bore_update_curr S h p d np)) t) = ctx_rest (bore_get_ctx h t)"
  by (auto simp: probe_bore_update_curr_def Let_def split_def update_penalty_ctx ctx_rest_def split: option.split)

lemma is_protected_frame: "same_task_but_kabi h h' \<Longrightarrow> is_protected (h' p) = is_protected (h p)"
  by (simp add: is_protected_def same_task_but_kabiD)

lemma spec_run_coherent_eq:
  "coherent P prot b \<Longrightarrow> spec_run P prot d b =
    b\<lparr>b_time := b_time b + d, b_curr := raw_penalty P (b_time b + d),
      b_penalty := spec_penalty prot (raw_penalty P (b_time b + d)) (b_prev b)\<rparr>"
  using spec_run_coherent [of P prot b d] by (simp add: coherent_def spec_run_def Let_def)

text \<open>However a burst is cut into ticks, the penalty is that of the whole run time.\<close>

lemma run_ticks_total:
  assumes "sane_tunables (params S)" and "sched_bore (params S) \<noteq> 0"
    and "stop_update (bore_get_ctx h p) = 0"
    and "coherent (params S) (is_protected (h p)) (abs_burst (bore_get_ctx h p))"
    and "unat (burst_time (bore_get_ctx h p)) + sum_list (map unat ds) < 2 ^ 64"
  shows "abs_burst (bore_get_ctx (run_ticks S h p ds) p) =
    spec_run (params S) (is_protected (h p)) (sum_list (map unat ds)) (abs_burst (bore_get_ctx h p))"
  using assms(3-5)
proof (induction ds arbitrary: h)
  case Nil
  then show ?case
    by (cases "abs_burst (bore_get_ctx h p)")
      (simp add: run_ticks_def spec_run_coherent_eq coherent_def)
next
  case (Cons d ds)
  let ?h = "fst (probe_bore_update_curr S h (Some p) d None)"
  let ?b = "abs_burst (bore_get_ctx h p)"
  have step: "abs_burst (bore_get_ctx ?h p) = spec_run (params S) (is_protected (h p)) (unat d) ?b"
    using assms(1,2) Cons.prems by (intro update_curr_refines) simp_all
  have prot: "is_protected (?h p) = is_protected (h p)"
    by (intro is_protected_frame update_curr_frame)
  have coh: "coherent (params S) (is_protected (?h p)) (abs_burst (bore_get_ctx ?h p))"
    unfolding step prot using Cons.prems(2) by (rule spec_run_coherent)
  have time: "unat (burst_time (bore_get_ctx ?h p)) = unat (burst_time (bore_get_ctx h p)) + unat d"
    using arg_cong [OF step, of b_time] by (simp add: abs_burst_def spec_run_def Let_def)
  have "abs_burst (bore_get_ctx (run_ticks S ?h p ds) p) =
      spec_run (params S) (is_protected (?h p)) (sum_list (map unat ds)) (abs_burst (bore_get_ctx ?h p))"
    using Cons.prems(1,3) coh time by (intro Cons.IH) (simp_all add: update_curr_frame)
  then show ?case
    using Cons.prems(2) coh by (simp add: run_ticks_def spec_run_coherent_eq prot)
      (simp add: step spec_run_coherent_eq add.assoc)
qed

lemma fork_inherit_returns:
  assumes "task_forest h depth height"
  shows "\<exists>h' v. fork_inherit S h cur p now = Some (h', v)"
proof (cases cur)
  case None
  then show ?thesis
    by (simp add: fork_inherit_def inherit_from_ancestor_hub_def inherit_from_parent_def)
next
  case (Some q)
  have "\<exists>h' v. inherit_from_parent S h (Some q) 0 now = Some (h', v)"
    by (simp add: inherit_from_parent_def Let_def split_def)
  then show ?thesis
    using Some hub_returns [OF assms] surj_pair [of "inherit_from_thread_group S h q now"]
    by (simp add: fork_inherit_def)
qed

section \<open>Properties\<close>

text \<open>
  C1: accounting run time implements the specification. With tunables in range and no 64-bit
  overflow of the run time, the tick handler of an enabled scheduler takes the abstract burst of a
  task whose updates are not stopped to \<open>spec_run\<close> of it and keeps the rest of its context, both
  flags and both caches; other tasks and everything outside the reserved words are unchanged. A
  task whose updates are stopped, and every task when the scheduler is disabled, is left alone:
  the heap does not change at all.
\<close>

theorem update_curr_implements_spec:
  assumes "sane_tunables (params S)" and "unat (burst_time (bore_get_ctx h p)) + unat d < 2 ^ 64"
  shows "let h' = fst (probe_bore_update_curr S h (Some p) d np) in
    (if sched_bore (params S) = 0 \<or> stop_update (bore_get_ctx h p) \<noteq> 0 then h' = h
     else abs_burst (bore_get_ctx h' p) =
         spec_run (params S) (is_protected (h p)) (unat d) (abs_burst (bore_get_ctx h p)) \<and>
       ctx_rest (bore_get_ctx h' p) = ctx_rest (bore_get_ctx h p)) \<and>
    (\<forall>t. t \<noteq> p \<longrightarrow> bore_get_ctx h' t = bore_get_ctx h t) \<and> same_task_but_kabi h h'"
proof (cases "sched_bore (params S) = 0 \<or> stop_update (bore_get_ctx h p) \<noteq> 0")
  case True
  then show ?thesis by (auto simp: probe_bore_update_curr_def Let_def)
next
  case False
  have "bore_get_ctx (fst (probe_bore_update_curr S h (Some p) d np)) t = bore_get_ctx h t" if "t \<noteq> p" for t
    using that by (simp add: probe_bore_update_curr_def Let_def split_def)
  then show ?thesis
    using False update_curr_refines [OF assms(1) _ _ assms(2), of np]
    by (simp add: Let_def update_curr_frame)
qed

lemma example_abs [simp]: "abs_burst (zero_bore_ctx\<lparr>penalty := x\<rparr>) =
    \<lparr>b_time = 0, b_prev = 0, b_curr = 0, b_penalty = unat x\<rparr>"
  by (simp add: abs_burst_def)

lemma example_unprotected [simp]: "\<not> is_protected (example_family p)"
  by (simp add: is_protected_def)

theorem update_curr_implements_spec_witness:
  "abs_burst (bore_get_ctx (fst (probe_bore_update_curr example_bore_state example_family (Some 4) 67108864 None)) 4) =
    spec_run default_bore_params False 67108864 \<lparr>b_time = 0, b_prev = 0, b_curr = 0, b_penalty = 0\<rparr>"
  using update_curr_implements_spec [of example_bore_state example_family 4 67108864 None] by (simp add: Let_def)

text \<open>
  C2: the end of a burst implements the specification. A dequeue for sleeping and a yield are
  defined for every smoothness below 32; both take the task's abstract burst to \<open>spec_restart\<close> of
  it and change nothing else: the flags and caches of the task, every other task and everything
  outside the reserved words stay as they were. A dequeue without the sleep flag, and either with
  the scheduler disabled, does nothing.
\<close>

theorem burst_end_implements_spec:
  assumes "unat (sched_burst_smoothness (params S)) < 32"
  shows "\<exists>h'. probe_bore_yield_task_fair S h (Some p) = Some h' \<and>
    probe_bore_dequeue_task_fair S h (Some p) fl =
      (if fl AND DEQUEUE_SLEEP \<noteq> 0 then Some h' else Some h) \<and>
    (if sched_bore (params S) = 0 then h' = h
     else abs_burst (bore_get_ctx h' p) =
         spec_restart (params S) (is_protected (h p)) (abs_burst (bore_get_ctx h p)) \<and>
       ctx_rest (bore_get_ctx h' p) = ctx_rest (bore_get_ctx h p)) \<and>
    (\<forall>t. t \<noteq> p \<longrightarrow> bore_get_ctx h' t = bore_get_ctx h t) \<and> same_task_but_kabi h h'"
proof (cases "sched_bore (params S) = 0")
  case True
  then show ?thesis
    by (simp add: probe_bore_yield_task_fair_def probe_bore_dequeue_task_fair_def)
next
  case False
  obtain ctx' np' where "restart_burst_bore (params S) (h p) (bore_get_ctx h p) None = Some (ctx', np')"
      "abs_burst ctx' = spec_restart (params S) (is_protected (h p)) (abs_burst (bore_get_ctx h p))"
      "ctx_rest ctx' = ctx_rest (bore_get_ctx h p)"
    using restart_refines [OF assms, of "h p" "bore_get_ctx h p" None] by blast
  then show ?thesis
    using False by (simp add: probe_bore_yield_task_fair_def probe_bore_dequeue_task_fair_def)
qed

theorem burst_end_implements_spec_witness:
  "\<exists>h'. probe_bore_dequeue_task_fair example_bore_state example_family (Some 3) 1 = Some h' \<and>
    abs_burst (bore_get_ctx h' 3) =
      spec_restart default_bore_params False \<lparr>b_time = 0, b_prev = 0, b_curr = 0, b_penalty = 3001\<rparr>"
  using burst_end_implements_spec [of example_bore_state example_family 3 1]
  by (auto simp: DEQUEUE_SLEEP_def)

text \<open>
  C3: forking implements the specification. On an acyclic task tree with bounded penalties the
  handler returns; the child starts a new burst whose smoothed penalty is the larger of its own
  and the inherited one, the inherited one is within the cap, and no other task's run time,
  penalties or flags change.
\<close>

theorem fork_implements_spec:
  assumes "lut_ready S" and "heap_ok h" and "task_forest h depth height"
    and "sched_bore (params S) \<noteq> 0" and "bore_task_is_eligible h p"
  shows "\<exists>h1 v h'. fork_inherit S h cur p now = Some (h1, v) \<and> unat v \<le> 10239 \<and>
    probe_bore_task_fork S h cur (Some p) now = Some h' \<and>
    abs_burst (bore_get_ctx h' p) = spec_fork (is_protected (h p)) (unat v) (abs_burst (bore_get_ctx h p)) \<and>
    stop_update (bore_get_ctx h' p) = 0 \<and>
    (\<forall>t. t \<noteq> p \<longrightarrow> ctx_core (bore_get_ctx h' t) = ctx_core (bore_get_ctx h t)) \<and>
    same_task_but_kabi h h'"
proof -
  obtain h1 v where inh: "fork_inherit S h cur p now = Some (h1, v)"
    using fork_inherit_returns [OF assms(3)] by blast
  have v: "unat v \<le> 10239"
    using fork_source.source_ok [OF inh assms(1,2)] by simp
  have "abs_burst (bore_get_ctx h1 p) = abs_burst (bore_get_ctx h p)"
    using ctx_core_eqD [OF fork_source.source_core [OF inh, of p]] by (simp add: abs_burst_def)
  moreover have "is_protected (h1 p) = is_protected (h p)"
    by (rule is_protected_frame) (rule fork_source.source_frame [OF inh])
  ultimately have "abs_burst (bore_get_ctx (fork_finish S h1 p v) p) =
      spec_fork (is_protected (h p)) (unat v) (abs_burst (bore_get_ctx h p))"
    using fork_finish_refines [OF v] by simp
  moreover have "stop_update (bore_get_ctx (fork_finish S h1 p v) p) = 0"
    by (simp add: fork_finish_def Let_def update_penalty_ctx)
  ultimately show ?thesis
    using assms(4,5) inh v fork_source.finish_core(1) [OF inh] fork_source.finish_frame [OF inh]
    by (simp add: probe_bore_task_fork_def)
qed

theorem fork_implements_spec_witness:
  "\<exists>h' v. fork_inherit example_bore_state example_family (Some 2) 4 80000000 = Some (h', v) \<and> unat v \<le> 10239"
  using fork_implements_spec [OF example_state_simps(1) example_family_ok example_family_forest, of 4 "Some 2" 80000000]
  by auto

text \<open>
  C20: a burst may be accounted in any number of ticks. From a coherent context, after any
  sequence of ticks the abstract burst is that of a single run for the sum of the ticks: the
  penalty in force depends on the total run time only.
\<close>

theorem tick_granularity_irrelevant:
  assumes "sane_tunables (params S)" and "sched_bore (params S) \<noteq> 0"
    and "stop_update (bore_get_ctx h p) = 0"
    and "coherent (params S) (is_protected (h p)) (abs_burst (bore_get_ctx h p))"
    and "unat (burst_time (bore_get_ctx h p)) + sum_list (map unat ds) < 2 ^ 64"
  shows "abs_burst (bore_get_ctx (run_ticks S h p ds) p) =
    spec_run (params S) (is_protected (h p)) (sum_list (map unat ds)) (abs_burst (bore_get_ctx h p))"
  using assms by (rule run_ticks_total)

theorem tick_granularity_irrelevant_witness:
  "abs_burst (bore_get_ctx (run_ticks example_bore_state example_family 4 [4000000, 63108864]) 4) =
    spec_run default_bore_params False 67108864 \<lparr>b_time = 0, b_prev = 0, b_curr = 0, b_penalty = 0\<rparr>"
  using tick_granularity_irrelevant [of example_bore_state example_family 4 "[4000000, 63108864]"]
  by (simp add: coherent_def raw_penalty_def greed_spec_def penalty_of_greed_def spec_penalty_def)

lemma update_curr_reports_prio:
  "snd (probe_bore_update_curr S h (Some p) d (Some x)) =
    (let before = effective_prio_bore (params S) (h p) (bore_get_ctx h p);
         after = effective_prio_bore (params S) (h p)
           (bore_get_ctx (fst (probe_bore_update_curr S h (Some p) d (Some x))) p)
     in Some (if after = before then x else ucast after))"
proof -
  have same: "effective_prio_bore P q (c\<lparr>burst_time := b, curr_penalty := k\<rparr>) = effective_prio_bore P q c"
    for P q c b k
    by (simp add: effective_prio_bore_def bore_score_def Let_def)
  show ?thesis
    by (simp add: probe_bore_update_curr_def Let_def split_def update_penalty_prio same)
qed

text \<open>
  C29: in the kernel's range of static priorities the effective priority is the nice level plus
  the score of the penalty, kept within 0 and 39, and it is at most 39 for any input; the tick
  handler reports a priority through \<open>new_prio\<close> exactly when the effective priority has changed, and
  then reports the new one.
\<close>

theorem effective_prio_clamped:
  "unat (effective_prio_bore P p ctx) \<le> 39 \<and>
   (0 \<le> sint (static_prio p) \<and> sint (static_prio p) \<le> 139 \<and> unat (penalty ctx) \<le> 10239 \<longrightarrow>
    int (unat (effective_prio_bore P p ctx)) =
      min 39 (max 0 (sint (static_prio p) - 100 +
        (if sched_bore P = 0 then 0 else int (unat (penalty ctx) div 256))))) \<and>
   snd (probe_bore_update_curr S h (Some t) d (Some x)) =
    (let before = effective_prio_bore (params S) (h t) (bore_get_ctx h t);
         after = effective_prio_bore (params S) (h t)
           (bore_get_ctx (fst (probe_bore_update_curr S h (Some t) d (Some x))) t)
     in Some (if after = before then x else ucast after))"
  using effective_prio_le_39 effective_prio_value update_curr_reports_prio by blast

theorem effective_prio_clamped_witness:
  "unat (effective_prio_bore default_bore_params example_task (zero_bore_ctx\<lparr>penalty := 3001\<rparr>)) = 31"
  using effective_prio_clamped [of default_bore_params example_task "zero_bore_ctx\<lparr>penalty := 3001\<rparr>"]
  by (simp add: example_task_def)

end
