(* ===== verification/Hook_Registry.thy ===== *)
theory Hook_Registry
  imports Axion_Prelude
begin

text \<open>
  The kernel-side registrations a loadable module makes and must undo: vendor hooks (tracepoint
  probes), the sysctl table and the proc entry. The kernel's answers are parameters: the return
  code of each \<open>register_trace_...\<close> call, and whether \<open>register_sysctl\<close> and \<open>proc_create\<close>
  return a pointer. The locale \<open>hook_module\<close> is the contract of a module that registers a list of
  hooks in order and rolls back on failure; both scheduler modules are instances.
\<close>

section \<open>Definitions\<close>

text \<open>
  Proc files: the show function an open function hands to \<open>single_open\<close>, the operations of the
  seq-file library, and a table of operations with the write handlers \<open>'w\<close> of a module. The first
  field is the owner a \<open>file_operations\<close> table of older kernels may name.
\<close>

datatype show_fn = Bore_proc_show | Latency_proc_show | Nta_pid_show | Dragonite_stats_show
datatype open_fn = Single_open show_fn
datatype read_fn = Seq_read
datatype lseek_fn = Seq_lseek | Noop_llseek
datatype release_fn = Single_release

record 'w proc_ops =
  this_module :: bool
  proc_open :: "open_fn option"
  proc_read :: "read_fn option"
  proc_write :: "'w option"
  proc_lseek :: "lseek_fn option"
  proc_release :: "release_fn option"

text \<open>
  An entry \<open>proc_create\<close> makes for a scheduler module, which has no write handler: its name, its
  mode and its table of operations. The pointer the module keeps stands for the entry.
\<close>

type_synonym proc_entry = "string \<times> nat \<times> unit proc_ops"

record 'k kernel_reg =
  attached :: "'k list"
  sysctl_tables :: "string list"
  proc_entries :: "proc_entry list"

definition register_hook :: "('k \<Rightarrow> s32) \<Rightarrow> 'k \<Rightarrow> 'k kernel_reg \<Rightarrow> 'k kernel_reg" where
  "register_hook reg k K = (if reg k = 0 then K\<lparr>attached := k # attached K\<rparr> else K)"

definition unregister_hook :: "'k \<Rightarrow> 'k kernel_reg \<Rightarrow> 'k kernel_reg" where
  "unregister_hook k K = K\<lparr>attached := remove1 k (attached K)\<rparr>"

definition register_sysctl :: "bool \<Rightarrow> string \<Rightarrow> 'k kernel_reg \<Rightarrow> 'k kernel_reg" where
  "register_sysctl ok name K = (if ok then K\<lparr>sysctl_tables := name # sysctl_tables K\<rparr> else K)"

definition unregister_sysctl_table :: "string \<Rightarrow> 'k kernel_reg \<Rightarrow> 'k kernel_reg" where
  "unregister_sysctl_table name K = K\<lparr>sysctl_tables := remove1 name (sysctl_tables K)\<rparr>"

definition proc_create :: "bool \<Rightarrow> string \<Rightarrow> nat \<Rightarrow> unit proc_ops \<Rightarrow> 'k kernel_reg \<Rightarrow> 'k kernel_reg" where
  "proc_create ok name md fops K =
    (if ok then K\<lparr>proc_entries := (name, md, fops) # proc_entries K\<rparr> else K)"

definition proc_remove :: "proc_entry \<Rightarrow> 'k kernel_reg \<Rightarrow> 'k kernel_reg" where
  "proc_remove entry K = K\<lparr>proc_entries := remove1 entry (proc_entries K)\<rparr>"

text \<open>
  Shared by the sysctl tables of the modules: the handler a table row names, the row itself (the
  file name, the variable it writes, its size and mode) and the rows of \<open>uint\<close> variables, which
  are all alike.
\<close>

datatype proc_handler = Proc_dointvec_minmax | Proc_doulongvec_minmax

record 'v ctl_table =
  procname :: string
  data :: 'v
  maxlen :: nat
  mode :: nat
  handler :: proc_handler

definition mode_0644 :: nat where "mode_0644 = 6 * 64 + 4 * 8 + 4"
definition mode_0664 :: nat where "mode_0664 = 6 * 64 + 6 * 8 + 4"
definition mode_0666 :: nat where "mode_0666 = 6 * 64 + 6 * 8 + 6"
definition mode_0444 :: nat where "mode_0444 = 4 * 64 + 4 * 8 + 4"
definition mode_0222 :: nat where "mode_0222 = 2 * 64 + 2 * 8 + 2"

definition ctl_uint :: "string \<Rightarrow> 'v \<Rightarrow> 'v ctl_table" where
  "ctl_uint name v =
    \<lparr>procname = name, data = v, maxlen = 4, mode = mode_0644, handler = Proc_dointvec_minmax\<rparr>"

text \<open>
  A table fits the mode of its file: for user, group and others alike the read bit is set iff the
  file can be read, the write bit iff it can be written, and it is never executable; a file that
  \<open>single_open\<close> opens is read, moved in and released by the matching seq-file functions.
\<close>

definition file_typed :: "nat \<Rightarrow> 'w proc_ops \<Rightarrow> bool" where
  "file_typed md ops \<longleftrightarrow>
    md = 73 * (4 * of_bool (proc_read ops \<noteq> None) + 2 * of_bool (proc_write ops \<noteq> None)) \<and>
    (proc_open ops \<noteq> None \<longleftrightarrow> proc_read ops = Some Seq_read) \<and>
    (proc_open ops \<noteq> None \<longleftrightarrow> proc_release ops = Some Single_release) \<and>
    proc_lseek ops = Some (if proc_open ops \<noteq> None then Seq_lseek else Noop_llseek)"

lemmas registry_defs = register_hook_def unregister_hook_def register_sysctl_def
  unregister_sysctl_table_def proc_create_def proc_remove_def

section \<open>Modules that register hooks\<close>

text \<open>
  The module state \<open>'m\<close> records what the module remembers of its registrations. Loading attaches
  all hooks or none; unloading detaches what loading attached.
\<close>

locale hook_module =
  fixes hooks :: "'k list" and table :: string and entry :: string and md :: nat and fops :: "unit proc_ops"
    and load :: "('k \<Rightarrow> s32) \<Rightarrow> bool \<Rightarrow> bool \<Rightarrow> 'm \<Rightarrow> 'k kernel_reg \<Rightarrow> s32 \<times> 'm \<times> 'k kernel_reg"
    and unload :: "'m \<Rightarrow> 'k kernel_reg \<Rightarrow> 'k kernel_reg"
    and active :: "'m \<Rightarrow> bool"
  assumes load_all: "\<forall>k \<in> set hooks. reg k = 0 \<Longrightarrow> load reg sysctl_ok proc_ok m K = (r, m', K') \<Longrightarrow>
      r = 0 \<and> active m' \<and> K' = proc_create proc_ok entry md fops (register_sysctl sysctl_ok table
        (K\<lparr>attached := rev hooks @ attached K\<rparr>))"
    and load_none: "\<exists>k \<in> set hooks. reg k \<noteq> 0 \<Longrightarrow> load reg sysctl_ok proc_ok m K = (r, m', K') \<Longrightarrow>
      r = 0 \<and> \<not> active m' \<and> K' = proc_create proc_ok entry md fops K"
    and unload_undo: "load reg sysctl_ok proc_ok m K = (r, m', K') \<Longrightarrow> unload m' K' = K"
begin

lemma load_returns_zero: "fst (load reg sysctl_ok proc_ok m K) = 0"
proof -
  obtain r m' K' where l: "load reg sysctl_ok proc_ok m K = (r, m', K')"
    by (rule prod_cases3)
  then have "r = 0"
    using load_all [OF _ l] load_none [OF _ l] by blast
  with l show ?thesis by simp
qed

lemma all_or_nothing:
  assumes "load reg sysctl_ok proc_ok m K = (r, m', K')"
  shows "attached K' = (if active m' then rev hooks @ attached K else attached K)"
    and "active m' \<longleftrightarrow> (\<forall>k \<in> set hooks. reg k = 0)"
proof -
  have "attached K' = (if active m' then rev hooks @ attached K else attached K) \<and>
      (active m' \<longleftrightarrow> (\<forall>k \<in> set hooks. reg k = 0))"
  proof (cases "\<forall>k \<in> set hooks. reg k = 0")
    case True
    then show ?thesis
      using load_all [OF _ assms] by (simp add: proc_create_def register_sysctl_def)
  next
    case False
    then show ?thesis
      using load_none [OF _ assms] by (auto simp: proc_create_def)
  qed
  then show "attached K' = (if active m' then rev hooks @ attached K else attached K)"
    and "active m' \<longleftrightarrow> (\<forall>k \<in> set hooks. reg k = 0)"
    by simp_all
qed

text \<open>A module can be loaded again after it was unloaded, with no trace of the first time.\<close>

lemma reload:
  assumes "load reg sysctl_ok proc_ok m K = (r, m', K')"
  shows "load reg' sysctl_ok' proc_ok' m'' (unload m' K') = load reg' sysctl_ok' proc_ok' m'' K"
  by (simp add: unload_undo [OF assms])

end

end
