(* ===== verification/Bore_Module.thy ===== *)
theory Bore_Module
  imports Bore_Spec Hook_Registry
begin

text \<open>
  Loading and unloading of the BORE module, its sysctl table and its proc file
  (\<^verbatim>\<open>bore_sched_main.c\<close>, from \<open>bore_proc_show\<close> on). Shown: all seven hooks are attached or none, and
  unloading undoes loading whatever the kernel answered.
\<close>

section \<open>Definitions\<close>

datatype bore_hook =
    Bore_update_curr | Bore_dequeue_task_fair | Bore_set_next_entity | Bore_yield_task_fair
  | Bore_task_fork | Bore_init_entity | Bore_set_load_weight

definition bore_proc_show :: "bore_state \<Rightarrow> string" where
  "bore_proc_show S =
    ''BORE (Burst-Oriented Response Enhancer) CPU Scheduler 6.8.0'' @ NL @
    (if \<not> bore_hooks_active S
     then ''status:                      disabled (kernel hooks not present / no-op mode)'' @ NL
     else
       ''sched_bore:                  '' @ dec_nat (unat (sched_bore (params S))) @ NL @
       ''sched_burst_inherit_type:    '' @ dec_nat (unat (sched_burst_inherit_type (params S))) @ NL @
       ''sched_burst_smoothness:      '' @ dec_nat (unat (sched_burst_smoothness (params S))) @ NL @
       ''sched_burst_penalty_offset:  '' @ dec_nat (unat (sched_burst_penalty_offset (params S))) @ NL @
       ''sched_burst_penalty_scale:   '' @ dec_nat (unat (sched_burst_penalty_scale (params S))) @ NL @
       ''sched_burst_cache_lifetime:  '' @ dec_nat (unat (sched_burst_cache_lifetime (params S))) @ NL)"

definition bore_proc_open :: open_fn where
  "bore_proc_open = Single_open Bore_proc_show"

text \<open>The same operations whether the kernel takes \<open>proc_ops\<close> or \<open>file_operations\<close>.\<close>

definition bore_proc_fops :: "unit proc_ops" where
  "bore_proc_fops = \<lparr>this_module = False, proc_open = Some bore_proc_open, proc_read = Some Seq_read,
    proc_write = None, proc_lseek = Some Seq_lseek, proc_release = Some Single_release\<rparr>"

datatype bore_tunable =
    Sched_bore | Sched_burst_inherit_type | Sched_burst_smoothness | Sched_burst_penalty_offset
  | Sched_burst_penalty_scale | Sched_burst_cache_lifetime

definition bore_table :: "bore_tunable ctl_table list" where
  "bore_table =
    [ctl_uint ''sched_bore'' Sched_bore,
     ctl_uint ''sched_burst_inherit_type'' Sched_burst_inherit_type,
     ctl_uint ''sched_burst_smoothness'' Sched_burst_smoothness,
     ctl_uint ''sched_burst_penalty_offset'' Sched_burst_penalty_offset,
     ctl_uint ''sched_burst_penalty_scale'' Sched_burst_penalty_scale,
     ctl_uint ''sched_burst_cache_lifetime'' Sched_burst_cache_lifetime]"

text \<open>\<open>init_bore_tasks\<close>: the loop over all threads of all processes, in list order.\<close>

definition init_bore_tasks :: "task list \<Rightarrow> heap \<Rightarrow> heap" where
  "init_bore_tasks ts h = foldl (\<lambda>h t. bore_put_ctx h t zero_bore_ctx) h ts"

text \<open>
  The error labels of \<open>bore_sched_init\<close>, each falling through to the one below it. The state is
  the module's globals and the kernel's registrations; \<open>proc_ok\<close> tells whether \<open>proc_create\<close>
  returns an entry.
\<close>

type_synonym bore_load_state = "bore_state \<times> bore_hook kernel_reg"

definition bore_fail_hooks :: "bool \<Rightarrow> bore_load_state \<Rightarrow> s32 \<times> bore_load_state" where
  "bore_fail_hooks proc_ok = (\<lambda>(S, K).
    (0, S\<lparr>params := (params S)\<lparr>sched_bore := 0\<rparr>, bore_hooks_active := False, bore_proc_entry := proc_ok\<rparr>,
     proc_create proc_ok ''bore'' mode_0444 bore_proc_fops K))"

definition bore_fail_dequeue :: "bool \<Rightarrow> bore_load_state \<Rightarrow> s32 \<times> bore_load_state" where
  "bore_fail_dequeue proc_ok = (\<lambda>(S, K). bore_fail_hooks proc_ok (S, unregister_hook Bore_update_curr K))"

definition bore_fail_set_next :: "bool \<Rightarrow> bore_load_state \<Rightarrow> s32 \<times> bore_load_state" where
  "bore_fail_set_next proc_ok = (\<lambda>(S, K). bore_fail_dequeue proc_ok (S, unregister_hook Bore_dequeue_task_fair K))"

definition bore_fail_yield :: "bool \<Rightarrow> bore_load_state \<Rightarrow> s32 \<times> bore_load_state" where
  "bore_fail_yield proc_ok = (\<lambda>(S, K). bore_fail_set_next proc_ok (S, unregister_hook Bore_set_next_entity K))"

definition bore_fail_task_fork :: "bool \<Rightarrow> bore_load_state \<Rightarrow> s32 \<times> bore_load_state" where
  "bore_fail_task_fork proc_ok = (\<lambda>(S, K). bore_fail_yield proc_ok (S, unregister_hook Bore_yield_task_fair K))"

definition bore_fail_init_entity :: "bool \<Rightarrow> bore_load_state \<Rightarrow> s32 \<times> bore_load_state" where
  "bore_fail_init_entity proc_ok = (\<lambda>(S, K). bore_fail_task_fork proc_ok (S, unregister_hook Bore_task_fork K))"

definition bore_fail_set_load_weight :: "bool \<Rightarrow> bore_load_state \<Rightarrow> s32 \<times> bore_load_state" where
  "bore_fail_set_load_weight proc_ok = (\<lambda>(S, K). bore_fail_init_entity proc_ok (S, unregister_hook Bore_init_entity K))"

text \<open>The registrations of \<open>bore_sched_init\<close>; \<open>reg\<close> is the return code of each register call.\<close>

definition bore_register_all ::
  "(bore_hook \<Rightarrow> s32) \<Rightarrow> bool \<Rightarrow> bool \<Rightarrow> bore_state \<Rightarrow> bore_hook kernel_reg \<Rightarrow> s32 \<times> bore_load_state" where
  "bore_register_all reg sysctl_ok proc_ok S K =
    (let K1 = register_hook reg Bore_update_curr K in
     if reg Bore_update_curr \<noteq> 0 then bore_fail_hooks proc_ok (S, K1) else
     let K2 = register_hook reg Bore_dequeue_task_fair K1 in
     if reg Bore_dequeue_task_fair \<noteq> 0 then bore_fail_dequeue proc_ok (S, K2) else
     let K3 = register_hook reg Bore_set_next_entity K2 in
     if reg Bore_set_next_entity \<noteq> 0 then bore_fail_set_next proc_ok (S, K3) else
     let K4 = register_hook reg Bore_yield_task_fair K3 in
     if reg Bore_yield_task_fair \<noteq> 0 then bore_fail_yield proc_ok (S, K4) else
     let K5 = register_hook reg Bore_task_fork K4 in
     if reg Bore_task_fork \<noteq> 0 then bore_fail_task_fork proc_ok (S, K5) else
     let K6 = register_hook reg Bore_init_entity K5 in
     if reg Bore_init_entity \<noteq> 0 then bore_fail_init_entity proc_ok (S, K6) else
     let K7 = register_hook reg Bore_set_load_weight K6 in
     if reg Bore_set_load_weight \<noteq> 0 then bore_fail_set_load_weight proc_ok (S, K7) else
     (0, S\<lparr>bore_hooks_active := True, bore_sysctl_header := sysctl_ok, bore_proc_entry := proc_ok\<rparr>,
      proc_create proc_ok ''bore'' mode_0444 bore_proc_fops (register_sysctl sysctl_ok ''kernel'' K7)))"

definition bore_sched_init ::
  "(bore_hook \<Rightarrow> s32) \<Rightarrow> bool \<Rightarrow> bool \<Rightarrow> task list \<Rightarrow> bore_state \<times> heap \<Rightarrow> bore_hook kernel_reg \<Rightarrow>
    s32 \<times> (bore_state \<times> heap) \<times> bore_hook kernel_reg" where
  "bore_sched_init reg sysctl_ok proc_ok ts = (\<lambda>(S, h) K.
    let (r, S', K') = bore_register_all reg sysctl_ok proc_ok (init_bore_reciprocal_lut S) K
    in (r, (S', init_bore_tasks ts h), K'))"

definition bore_sched_exit :: "bore_state \<times> heap \<Rightarrow> bore_hook kernel_reg \<Rightarrow> bore_hook kernel_reg" where
  "bore_sched_exit = (\<lambda>(S, h) K.
    let K = (if bore_proc_entry S then proc_remove (''bore'', mode_0444, bore_proc_fops) K else K) in
    if \<not> bore_hooks_active S then K
    else let K = (if bore_sysctl_header S then unregister_sysctl_table ''kernel'' K else K);
             K = unregister_hook Bore_set_load_weight K;
             K = unregister_hook Bore_init_entity K;
             K = unregister_hook Bore_task_fork K;
             K = unregister_hook Bore_yield_task_fair K;
             K = unregister_hook Bore_set_next_entity K;
             K = unregister_hook Bore_dequeue_task_fair K
         in unregister_hook Bore_update_curr K)"

text \<open>The hooks in the order they are registered.\<close>

definition bore_hooks :: "bore_hook list" where
  "bore_hooks = [Bore_update_curr, Bore_dequeue_task_fair, Bore_set_next_entity, Bore_yield_task_fair,
    Bore_task_fork, Bore_init_entity, Bore_set_load_weight]"

lemmas bore_fail_defs = bore_fail_hooks_def bore_fail_dequeue_def bore_fail_set_next_def
  bore_fail_yield_def bore_fail_task_fork_def bore_fail_init_entity_def bore_fail_set_load_weight_def

section \<open>Loading and unloading\<close>

lemma bore_register_all_ok:
  assumes "\<forall>k \<in> set bore_hooks. reg k = 0"
  shows "bore_register_all reg sysctl_ok proc_ok S K =
    (0, S\<lparr>bore_hooks_active := True, bore_sysctl_header := sysctl_ok, bore_proc_entry := proc_ok\<rparr>,
     proc_create proc_ok ''bore'' mode_0444 bore_proc_fops (register_sysctl sysctl_ok ''kernel''
       (K\<lparr>attached := rev bore_hooks @ attached K\<rparr>)))"
  using assms by (simp add: bore_register_all_def bore_hooks_def register_hook_def Let_def)

lemma bore_register_all_fail:
  assumes "\<exists>k \<in> set bore_hooks. reg k \<noteq> 0"
  shows "bore_register_all reg sysctl_ok proc_ok S K =
    (0, S\<lparr>params := (params S)\<lparr>sched_bore := 0\<rparr>, bore_hooks_active := False, bore_proc_entry := proc_ok\<rparr>,
     proc_create proc_ok ''bore'' mode_0444 bore_proc_fops K)"
  using assms
  by (auto simp: bore_register_all_def bore_fail_defs bore_hooks_def register_hook_def
      unregister_hook_def Let_def)

lemma bore_sched_exit_inactive:
  "\<not> bore_hooks_active S \<Longrightarrow> bore_sched_exit (S, h) K = (if bore_proc_entry S then proc_remove (''bore'', mode_0444, bore_proc_fops) K else K)"
  by (simp add: bore_sched_exit_def)

interpretation bore_module: hook_module bore_hooks "''kernel''" "''bore''" mode_0444 bore_proc_fops
  "\<lambda>reg sysctl_ok proc_ok. bore_sched_init reg sysctl_ok proc_ok ts" bore_sched_exit
  "\<lambda>(S, h). bore_hooks_active S" for ts
proof unfold_locales
  fix reg sysctl_ok proc_ok m and K :: "bore_hook kernel_reg" and r m' K'
  assume load: "bore_sched_init reg sysctl_ok proc_ok ts m K = (r, m', K')"
  obtain S h where m: "m = (S, h)" by fastforce
  show "r = 0 \<and> (case m' of (S, h) \<Rightarrow> bore_hooks_active S) \<and> K' = proc_create proc_ok ''bore'' mode_0444 bore_proc_fops
      (register_sysctl sysctl_ok ''kernel'' (K\<lparr>attached := rev bore_hooks @ attached K\<rparr>))"
    if "\<forall>k \<in> set bore_hooks. reg k = 0"
    using load by (auto simp: bore_sched_init_def m bore_register_all_ok [OF that])
  show "r = 0 \<and> \<not> (case m' of (S, h) \<Rightarrow> bore_hooks_active S) \<and> K' = proc_create proc_ok ''bore'' mode_0444 bore_proc_fops K"
    if "\<exists>k \<in> set bore_hooks. reg k \<noteq> 0"
    using load by (auto simp: bore_sched_init_def m bore_register_all_fail [OF that])
  show "bore_sched_exit m' K' = K"
  proof (cases "\<forall>k \<in> set bore_hooks. reg k = 0")
    case True
    then show ?thesis
      using load by (auto simp: bore_sched_init_def m bore_register_all_ok bore_sched_exit_def
          bore_hooks_def registry_defs)
  next
    case False
    then show ?thesis
      using load by (auto simp: bore_sched_init_def m bore_register_all_fail bore_sched_exit_inactive
          registry_defs)
  qed
qed

lemma init_bore_tasks_ctx:
  "bore_get_ctx (init_bore_tasks ts h) t = (if t \<in> set ts then zero_bore_ctx else bore_get_ctx h t)"
  unfolding init_bore_tasks_def by (induction ts arbitrary: h) auto

lemma bore_register_all_state:
  "bore_register_all reg sysctl_ok proc_ok S K = (r, S', K') \<Longrightarrow>
    bore_reciprocal_lut S' = bore_reciprocal_lut S \<and>
    params S' = (if bore_hooks_active S' then params S else (params S)\<lparr>sched_bore := 0\<rparr>)"
  by (cases "\<forall>k \<in> set bore_hooks. reg k = 0") (auto simp: bore_register_all_ok bore_register_all_fail)

text \<open>
  Loading attaches all seven hooks or none and switches the scheduler off when a hook is missing;
  unloading leaves the registrations from before.
\<close>

lemma bore_load_all_or_nothing:
  "case bore_sched_init reg sysctl_ok proc_ok ts (S, h) K of (r, (S', h'), K') \<Rightarrow>
    r = 0 \<and> bore_hooks_active S' = (\<forall>k. reg k = 0) \<and>
    attached K' = (if bore_hooks_active S' then rev bore_hooks @ attached K else attached K) \<and>
    params S' = (if bore_hooks_active S' then params S else (params S)\<lparr>sched_bore := 0\<rparr>) \<and>
    h' = init_bore_tasks ts h \<and> bore_sched_exit (S', h') K' = K"
proof -
  obtain r S' h' K' where l: "bore_sched_init reg sysctl_ok proc_ok ts (S, h) K = (r, (S', h'), K')"
    by (metis prod.collapse)
  have all: "(\<forall>k \<in> set bore_hooks. reg k = 0) \<longleftrightarrow> (\<forall>k. reg k = 0)"
    by (auto simp: bore_hooks_def) (metis bore_hook.exhaust)
  have "params S' = (if bore_hooks_active S' then params S else (params S)\<lparr>sched_bore := 0\<rparr>)"
    "h' = init_bore_tasks ts h"
    using l bore_register_all_state [of reg sysctl_ok proc_ok "init_bore_reciprocal_lut S" K]
    by (auto simp: bore_sched_init_def init_bore_reciprocal_lut_def split: prod.splits)
  then show ?thesis
    using l bore_module.all_or_nothing [OF l] bore_module.load_returns_zero [of reg sysctl_ok proc_ok ts "(S, h)" K]
      bore_module.unload_undo [OF l]
    by (simp add: all)
qed

end
