(* ===== verification/Latency_Sched.thy ===== *)
theory Latency_Sched
  imports Kernel_Tasks "HOL-Library.Signed_Division"
begin

text \<open>
  The latency-nice scheduler module (\<^verbatim>\<open>latency_sched.h\<close> and the hook handlers of
  \<^verbatim>\<open>latency_sched_main.c\<close>): every eligible task gets a latency class from its static priority and
  an offset proportional to it, and a wake-up or tick compares the offsets of two entities. The
  entity data is a view of the first reserved word only. The lemmas read the 32- and 64-bit signed
  arithmetic as integers, show that the comparison is a clamped difference, and give the decision
  for every combination of classes.
\<close>

section \<open>Definitions\<close>

record latency_params =
  sched_latency_nice_enabled :: u32
  sched_latency_max :: s64

definition MAX_LATENCY_NICE :: s16 where "MAX_LATENCY_NICE = 19"
definition MIN_LATENCY_NICE :: s16 where "MIN_LATENCY_NICE = - 20"
definition DEFAULT_LATENCY_NICE :: s16 where "DEFAULT_LATENCY_NICE = 0"
definition LATENCY_NICE_WIDTH :: s32 where "LATENCY_NICE_WIDTH = scast MAX_LATENCY_NICE - scast MIN_LATENCY_NICE + 1"
definition DEFAULT_LATENCY_PRIO :: s32 where
  "DEFAULT_LATENCY_PRIO = scast DEFAULT_LATENCY_NICE + word_of_int (sint LATENCY_NICE_WIDTH sdiv 2)"
definition LATENCY_TO_NICE :: "s32 \<Rightarrow> s32" where "LATENCY_TO_NICE prio = prio - DEFAULT_LATENCY_PRIO"
definition NICE_TO_LATENCY :: "s32 \<Rightarrow> s32" where "NICE_TO_LATENCY nice = nice + DEFAULT_LATENCY_PRIO"
definition DEFAULT_SCHED_LATENCY_MAX :: s64 where "DEFAULT_SCHED_LATENCY_MAX = 24000000"

definition default_latency_params :: latency_params where
  "default_latency_params =
    \<lparr>sched_latency_nice_enabled = 1, sched_latency_max = DEFAULT_SCHED_LATENCY_MAX\<rparr>"

record latency_sched_entity =
  latency_offset :: s32
  latency_nice :: s16
  lse_flags :: u16

definition zero_latency_entity :: latency_sched_entity where
  "zero_latency_entity = \<lparr>latency_offset = 0, latency_nice = 0, lse_flags = 0\<rparr>"

text \<open>The eight bytes of the structure in the first reserved word.\<close>

definition latency_word :: "s32 \<Rightarrow> s16 \<Rightarrow> u16 \<Rightarrow> u64" where
  "latency_word a b c = ucast a OR push_bit 32 (ucast b) OR push_bit 48 (ucast c)"

definition latency_load :: "kabi \<Rightarrow> latency_sched_entity" where
  "latency_load k =
    \<lparr>latency_offset = ucast (reserved1 k),
     latency_nice = ucast (drop_bit 32 (reserved1 k)),
     lse_flags = ucast (drop_bit 48 (reserved1 k))\<rparr>"

definition latency_store :: "latency_sched_entity \<Rightarrow> kabi \<Rightarrow> kabi" where
  "latency_store e k =
    k\<lparr>reserved1 := latency_word (latency_offset e) (latency_nice e) (lse_flags e)\<rparr>"

definition latency_get_se :: "heap \<Rightarrow> task \<Rightarrow> latency_sched_entity" where
  "latency_get_se h se = latency_load (kabi_area (h se))"

definition latency_put_se :: "heap \<Rightarrow> task \<Rightarrow> latency_sched_entity \<Rightarrow> heap" where
  "latency_put_se h se e = set_kabi h se (latency_store e (kabi_area (h se)))"

definition latency_task_is_eligible :: "heap \<Rightarrow> task \<Rightarrow> bool" where
  "latency_task_is_eligible h p =
    (if policy (h p) \<noteq> SCHED_NORMAL \<and> policy (h p) \<noteq> SCHED_BATCH \<and> policy (h p) \<noteq> SCHED_IDLE then False
     else if flags (h p) AND PF_IDLE \<noteq> 0 then False
     else True)"

text \<open>64-bit product, division truncating towards zero, conversion to 32 bits.\<close>

definition calc_latency_offset :: "latency_params \<Rightarrow> s16 \<Rightarrow> s32" where
  "calc_latency_offset P nice =
    ucast (word_of_int (sint (sched_latency_max P * scast nice) sdiv 20) :: s64)"

definition update_task_latency_nice :: "latency_params \<Rightarrow> heap \<Rightarrow> task option \<Rightarrow> heap" where
  "update_task_latency_nice P h p =
    (case p of
       None \<Rightarrow> h
     | Some p \<Rightarrow>
         if \<not> latency_task_is_eligible h p then h
         else let lse = latency_get_se h p;
                  nice_val = (if sint (static_prio (h p)) < 120 then MIN_LATENCY_NICE
                    else if sint (static_prio (h p)) > 120 then MAX_LATENCY_NICE
                    else DEFAULT_LATENCY_NICE)
              in latency_put_se h p
                   (lse\<lparr>latency_nice := nice_val, latency_offset := calc_latency_offset P nice_val\<rparr>))"

definition wakeup_latency_gran :: "latency_params \<Rightarrow> heap \<Rightarrow> task \<Rightarrow> task \<Rightarrow> s64" where
  "wakeup_latency_gran P h curr_se se =
    (let lcurr = latency_get_se h curr_se;
         lse = latency_get_se h se;
         offset = scast (latency_offset lse) :: s64;
         offset = (if sint offset < 0 \<or> sint (latency_offset lcurr) < 0
                   then offset - scast (latency_offset lcurr) else offset)
     in if sint offset > sint (sched_latency_max P) then sched_latency_max P
        else if sint offset < sint (- sched_latency_max P) then - sched_latency_max P
        else offset)"

definition probe_latency_wakeup_offset ::
  "latency_params \<Rightarrow> heap \<Rightarrow> task option \<Rightarrow> task option \<Rightarrow> s64 option \<Rightarrow> s64 option" where
  "probe_latency_wakeup_offset P h curr_se se offset =
    (case (curr_se, se, offset) of
       (Some c, Some s, Some _) \<Rightarrow>
         if sched_latency_nice_enabled P = 0 then offset else Some (wakeup_latency_gran P h c s)
     | _ \<Rightarrow> offset)"

definition probe_latency_tick_offset ::
  "latency_params \<Rightarrow> heap \<Rightarrow> task option \<Rightarrow> task option \<Rightarrow> s64 option \<Rightarrow> s64 option" where
  "probe_latency_tick_offset P h curr_se se offset =
    (case (curr_se, se, offset) of
       (Some c, Some s, Some _) \<Rightarrow>
         if sched_latency_nice_enabled P = 0 then offset else Some (wakeup_latency_gran P h c s)
     | _ \<Rightarrow> offset)"

definition probe_latency_init_entity :: "heap \<Rightarrow> task option \<Rightarrow> heap" where
  "probe_latency_init_entity h se =
    (case se of None \<Rightarrow> h | Some se \<Rightarrow> latency_put_se h se zero_latency_entity)"

definition probe_latency_set_user_nice :: "latency_params \<Rightarrow> heap \<Rightarrow> task option \<Rightarrow> heap" where
  "probe_latency_set_user_nice P h p =
    (if sched_latency_nice_enabled P = 0 then h else update_task_latency_nice P h p)"

text \<open>The loop over all threads of all processes.\<close>

definition init_latency_tasks :: "latency_params \<Rightarrow> task list \<Rightarrow> heap \<Rightarrow> heap" where
  "init_latency_tasks P ts h = foldl (\<lambda>h t. update_task_latency_nice P h (Some t)) h ts"

text \<open>
  The specification: the latency class of a static priority, its offset, and the preference of a
  waking entity with offset \<open>o\<close> over a running one with offset \<open>c\<close>.
\<close>

definition latency_class :: "int \<Rightarrow> int" where
  "latency_class prio = (if prio < 120 then - 20 else if prio > 120 then 19 else 0)"

definition offset_spec :: "int \<Rightarrow> int \<Rightarrow> int" where
  "offset_spec lmax nice = (lmax * nice) sdiv 20"

definition gran_spec :: "int \<Rightarrow> int \<Rightarrow> int \<Rightarrow> int" where
  "gran_spec lmax c o' = max (- lmax) (min lmax (if o' < 0 \<or> c < 0 then o' - c else o'))"

section \<open>Latency priorities\<close>

lemma DEFAULT_LATENCY_PRIO_eq: "DEFAULT_LATENCY_PRIO = 20"
  by code_simp

text \<open>The conversions are inverse to each other and map the nice range onto 0 to 39.\<close>

lemma latency_prio_roundtrip:
  "LATENCY_TO_NICE (NICE_TO_LATENCY n) = n" "NICE_TO_LATENCY (LATENCY_TO_NICE p) = p"
  by (simp_all add: LATENCY_TO_NICE_def NICE_TO_LATENCY_def)

lemma nice_to_latency_range:
  assumes "- 20 \<le> sint n" and "sint n \<le> 19"
  shows "0 \<le> sint (NICE_TO_LATENCY n)" and "sint (NICE_TO_LATENCY n) \<le> 39"
proof -
  have "sint (n + 20) = sint n + 20"
    using assms by (subst sint_add_small) simp_all
  then show "0 \<le> sint (NICE_TO_LATENCY n)" and "sint (NICE_TO_LATENCY n) \<le> 39"
    using assms by (simp_all add: NICE_TO_LATENCY_def DEFAULT_LATENCY_PRIO_eq)
qed

section \<open>The entity as a view of the first reserved word\<close>

lemma latency_word_split:
  "ucast (latency_word a b c) = a" "ucast (drop_bit 32 (latency_word a b c)) = b"
  "ucast (drop_bit 48 (latency_word a b c)) = c"
  by (rule bit_word_eqI; auto simp: latency_word_def bit_simps dest: bit_imp_le_length)+

lemma latency_word_join: "latency_word (ucast w) (ucast (drop_bit 32 w)) (ucast (drop_bit 48 w)) = w"
proof (rule bit_word_eqI)
  fix n
  assume "n < LENGTH(64)"
  then consider "n < 32" | "32 \<le> n" "n < 48" | "48 \<le> n" "n < 64"
    by fastforce
  then show "bit (latency_word (ucast w) (ucast (drop_bit 32 w)) (ucast (drop_bit 48 w))) n \<longleftrightarrow> bit w n"
    by cases (simp_all add: latency_word_def bit_simps less_diff_conv2)
qed

interpretation latency_view: kabi_view latency_load latency_store
proof unfold_locales
  show "latency_load (latency_store c k) = c" for c k
    by (cases c) (simp add: latency_load_def latency_store_def latency_word_split)
  show "latency_store (latency_load k) k = k" for k
    by (simp add: latency_load_def latency_store_def latency_word_join)
  show "latency_store c (latency_store d k) = latency_store c k" for c d k
    by (simp add: latency_store_def)
qed

lemma latency_get_put [simp]:
  "latency_get_se (latency_put_se h p c) q = (if q = p then c else latency_get_se h q)"
  unfolding latency_get_se_def latency_put_se_def by (rule latency_view.load_after_write)

lemma latency_put_frame [simp]: "same_task_but_kabi h (latency_put_se h p c)"
  by (simp add: latency_put_se_def)

lemmas latency_put_fields [simp] = same_task_but_kabiD [OF latency_put_frame]

lemma latency_eligible_put [simp]:
  "latency_task_is_eligible (latency_put_se h p c) = latency_task_is_eligible h"
  by (simp add: latency_task_is_eligible_def fun_eq_iff)

section \<open>Signed arithmetic\<close>

lemma sint_scast_s32 [simp]: "sint (scast (x :: s32) :: s64) = sint x"
  by (simp add: signed_scast_eq signed_take_bit_int_eq_self_iff) (use sint_lt [of x] sint_ge [of x] in simp)

lemma sint_scast_s16 [simp]: "sint (scast (x :: s16) :: s64) = sint x"
  by (simp add: signed_scast_eq signed_take_bit_int_eq_self_iff) (use sint_lt [of x] sint_ge [of x] in simp)

lemma sint_s32_range: "- 2147483648 \<le> sint (x :: s32)" "sint (x :: s32) < 2147483648"
  using sint_ge [of x] sint_lt [of x] by simp_all

text \<open>A tunable within the range the offsets can hold: non-negative and at most \<open>2 ^ 31 - 1\<close> ns.\<close>

definition sane_latency :: "latency_params \<Rightarrow> bool" where
  "sane_latency P \<longleftrightarrow> 0 \<le> sint (sched_latency_max P) \<and> sint (sched_latency_max P) < 2 ^ 31"

lemma sint_s64_of_int:
  assumes "- (2 ^ 63) \<le> i" and "i < 2 ^ 63"
  shows "sint (word_of_int i :: s64) = i"
  using assms by (simp add: signed_of_int signed_take_bit_int_eq_self)

lemma sint_s32_of_int:
  assumes "- (2 ^ 31) \<le> i" and "i < 2 ^ 31"
  shows "sint (word_of_int i :: s32) = i"
  using assms by (simp add: signed_of_int signed_take_bit_int_eq_self)

lemma sint_s64_mult:
  fixes a b :: s64
  assumes "- (2 ^ 63) \<le> sint a * sint b" and "sint a * sint b < 2 ^ 63"
  shows "sint (a * b) = sint a * sint b"
  using assms by (simp add: sint_word_mult signed_take_bit_int_eq_self)

lemma sint_s64_minus:
  fixes a b :: s64
  assumes "- (2 ^ 63) \<le> sint a - sint b" and "sint a - sint b < 2 ^ 63"
  shows "sint (a - b) = sint a - sint b"
  using assms by (simp add: sint_word_diff signed_take_bit_int_eq_self)

lemma sint_s64_neg:
  fixes a :: s64
  assumes "0 \<le> sint a"
  shows "sint (- a) = - sint a"
  using assms sint_lt [of a] by (simp add: sint_word_minus signed_take_bit_int_eq_self)

lemma sdiv_20_bound: "\<bar>a sdiv 20\<bar> \<le> \<bar>a\<bar> div (20 :: int)"
  by (simp add: signed_divide_int_def abs_mult)

lemma offset_spec_bound:
  assumes "\<bar>n\<bar> \<le> 20"
  shows "\<bar>offset_spec m n\<bar> \<le> \<bar>m\<bar>"
proof -
  have "\<bar>m * n\<bar> \<le> \<bar>m\<bar> * 20"
    using assms by (simp add: abs_mult mult_left_mono)
  then have "\<bar>m * n\<bar> div 20 \<le> \<bar>m\<bar>"
    by linarith
  then show ?thesis
    using sdiv_20_bound [of "m * n"] unfolding offset_spec_def by linarith
qed

lemma calc_latency_offset_int:
  assumes "sane_latency P" and "\<bar>sint nice\<bar> \<le> 20"
  shows "sint (calc_latency_offset P nice) = offset_spec (sint (sched_latency_max P)) (sint nice)"
proof -
  let ?m = "sint (sched_latency_max P)"
  have m: "0 \<le> ?m" "?m < 2 ^ 31"
    using assms(1) by (simp_all add: sane_latency_def)
  have "\<bar>?m * sint nice\<bar> \<le> 2 ^ 31 * 20"
    unfolding abs_mult using m assms(2) by (intro mult_mono) simp_all
  then have prod: "sint (sched_latency_max P * scast nice) = ?m * sint nice"
    by (subst sint_s64_mult) (simp_all add: abs_le_iff)
  have b: "\<bar>offset_spec ?m (sint nice)\<bar> < 2 ^ 31"
    using offset_spec_bound [OF assms(2), of ?m] m by linarith
  have "calc_latency_offset P nice = word_of_int (offset_spec ?m (sint nice))"
    unfolding calc_latency_offset_def prod offset_spec_def
    by (rule bit_word_eqI) (simp add: bit_simps)
  then show ?thesis
    using b by (simp add: sint_s32_of_int abs_less_iff)
qed

lemma wakeup_latency_gran_int:
  assumes "0 \<le> sint (sched_latency_max P)"
  shows "sint (wakeup_latency_gran P h c s) =
    gran_spec (sint (sched_latency_max P)) (sint (latency_offset (latency_get_se h c)))
      (sint (latency_offset (latency_get_se h s)))"
proof -
  let ?o = "latency_offset (latency_get_se h s)" and ?c = "latency_offset (latency_get_se h c)"
  have "sint (scast ?o - scast ?c :: s64) = sint ?o - sint ?c"
    using sint_s32_range [of ?o] sint_s32_range [of ?c] by (subst sint_s64_minus) simp_all
  then show ?thesis
    using assms by (auto simp: wakeup_latency_gran_def gran_spec_def Let_def sint_s64_neg)
qed

lemma latency_nice_values [simp]:
  "sint MIN_LATENCY_NICE = - 20" "sint MAX_LATENCY_NICE = 19" "sint DEFAULT_LATENCY_NICE = 0"
  by (simp_all add: MIN_LATENCY_NICE_def MAX_LATENCY_NICE_def DEFAULT_LATENCY_NICE_def)

text \<open>What one task's entity becomes when its class is recomputed.\<close>

definition classified :: "latency_params \<Rightarrow> heap \<Rightarrow> task \<Rightarrow> latency_sched_entity \<Rightarrow> bool" where
  "classified P h p e \<longleftrightarrow>
    sint (latency_nice e) = latency_class (sint (static_prio (h p))) \<and>
    sint (latency_offset e) =
      offset_spec (sint (sched_latency_max P)) (latency_class (sint (static_prio (h p))))"

lemma latency_class_range: "\<bar>latency_class prio\<bar> \<le> 20"
  by (simp add: latency_class_def)

lemma update_task_latency_nice_self:
  assumes "latency_task_is_eligible h p" and "sane_latency P"
  shows "classified P h p (latency_get_se (update_task_latency_nice P h (Some p)) p)"
  using assms
  by (simp add: update_task_latency_nice_def classified_def calc_latency_offset_int latency_class_def Let_def)

lemma update_task_latency_nice_frame:
  "same_task_but_kabi h (update_task_latency_nice P h p)"
  "p \<noteq> Some q \<Longrightarrow> latency_get_se (update_task_latency_nice P h p) q = latency_get_se h q"
  "lse_flags (latency_get_se (update_task_latency_nice P h p) q) = lse_flags (latency_get_se h q)"
  by (auto simp: update_task_latency_nice_def Let_def split: option.split)

lemmas update_task_latency_nice_fields =
  same_task_but_kabiD [OF update_task_latency_nice_frame(1)]

lemma latency_eligible_update [simp]:
  "latency_task_is_eligible (update_task_latency_nice P h p) = latency_task_is_eligible h"
  by (simp add: latency_task_is_eligible_def update_task_latency_nice_fields fun_eq_iff)

lemma classified_update [simp]:
  "classified P (update_task_latency_nice P h p) = classified P h"
  by (simp add: classified_def update_task_latency_nice_fields fun_eq_iff)

text \<open>Only the first reserved word of the task is written.\<close>

lemma update_task_latency_nice_word:
  "update_task_latency_nice P h (Some p) =
    set_kabi h p ((kabi_area (h p))\<lparr>reserved1 := reserved1 (kabi_area (update_task_latency_nice P h (Some p) p))\<rparr>)"
proof (cases "latency_task_is_eligible h p")
  case True
  then show ?thesis
    by (simp add: update_task_latency_nice_def latency_put_se_def latency_store_def Let_def)
next
  case False
  then show ?thesis
    by (simp add: update_task_latency_nice_def set_kabi_def)
qed

lemma init_latency_tasks_classified:
  assumes "latency_task_is_eligible h t" and "sane_latency P"
    and "t \<in> set ts \<or> classified P h t (latency_get_se h t)"
  shows "classified P h t (latency_get_se (init_latency_tasks P ts h) t)"
  using assms
proof (induction ts arbitrary: h)
  case Nil
  then show ?case
    by (simp add: init_latency_tasks_def)
next
  case (Cons u ts)
  let ?h = "update_task_latency_nice P h (Some u)"
  have "t \<in> set ts \<or> classified P ?h t (latency_get_se ?h t)"
    using Cons.prems update_task_latency_nice_self [of h t P]
    by (cases "t = u") (auto simp: update_task_latency_nice_frame(2))
  then show ?case
    using Cons.IH [of ?h] Cons.prems by (simp add: init_latency_tasks_def)
qed

lemma gran_spec_bound: "0 \<le> m \<Longrightarrow> \<bar>gran_spec m c s\<bar> \<le> m"
  by (auto simp: gran_spec_def)

lemma offset_spec_class:
  "offset_spec m (- 20) = - m" "offset_spec m 0 = 0" "0 \<le> m \<Longrightarrow> offset_spec m 19 = m * 19 div 20"
  by (simp_all add: offset_spec_def signed_divide_int_def abs_mult sgn_mult sgn_if)

lemma gran_of_classes:
  assumes "0 \<le> m"
  shows "gran_spec m (offset_spec m (latency_class pc)) (offset_spec m (latency_class ps)) =
    (if ps < 120 then (if pc < 120 then 0 else - m)
     else if pc < 120 then m else if ps = 120 then 0 else m * 19 div 20)"
proof -
  define b where "b = m * 19 div 20"
  have b: "0 \<le> b" "b \<le> m"
    using assms unfolding b_def by linarith+
  have "offset_spec m (latency_class p) = (if p < 120 then - m else if p > 120 then b else 0)" for p
    using assms by (simp add: latency_class_def offset_spec_class b_def)
  then show ?thesis
    using assms b by (cases "m = 0") (simp_all add: gran_spec_def flip: b_def)
qed

section \<open>Properties\<close>

text \<open>
  C30: the latency class of a task. When the maximum is between 0 and \<open>2 ^ 31 - 1\<close> ns, recomputing
  an eligible task gives it class -20, 0 or 19 as its static priority is above, at or below the
  default, and the offset \<open>max * class / 20\<close>, which neither the 64-bit product nor the 32-bit field
  truncates and which is at most the maximum in size, and keeps the flags of the entity. Only the
  first reserved word of the task is written: its other reserved words, its other fields and every
  other task are as before. A task that is not eligible, or no task, changes nothing. (The first
  reserved word is also where the BORE module keeps the task's run time.)
\<close>

theorem latency_class_assigned:
  assumes "latency_task_is_eligible h p" and "sane_latency P"
  shows "let h' = update_task_latency_nice P h (Some p); e = latency_get_se h' p;
             cls = latency_class (sint (static_prio (h p)))
    in sint (latency_nice e) = cls \<and> lse_flags e = lse_flags (latency_get_se h p) \<and>
       sint (latency_offset e) = offset_spec (sint (sched_latency_max P)) cls \<and>
       \<bar>sint (latency_offset e)\<bar> \<le> sint (sched_latency_max P) \<and>
       h' = set_kabi h p ((kabi_area (h p))\<lparr>reserved1 := reserved1 (kabi_area (h' p))\<rparr>) \<and>
       same_task_but_kabi h h' \<and> (\<forall>q. q = p \<or> latency_get_se h' q = latency_get_se h q) \<and>
       (\<not> latency_task_is_eligible h u \<longrightarrow> update_task_latency_nice P h (Some u) = h) \<and>
       update_task_latency_nice P h None = h"
proof -
  have "\<bar>offset_spec (sint (sched_latency_max P)) (latency_class (sint (static_prio (h p))))\<bar>
      \<le> sint (sched_latency_max P)"
    using offset_spec_bound [OF latency_class_range, of "sint (sched_latency_max P)"] assms(2)
    by (simp add: sane_latency_def)
  moreover have "\<forall>q. q = p \<or> latency_get_se (update_task_latency_nice P h (Some p)) q = latency_get_se h q"
    by (metis option.inject update_task_latency_nice_frame(2))
  moreover have "\<not> latency_task_is_eligible h u \<longrightarrow> update_task_latency_nice P h (Some u) = h"
    and "update_task_latency_nice P h None = h"
    by (simp_all add: update_task_latency_nice_def)
  ultimately show ?thesis
    using update_task_latency_nice_self [OF assms] update_task_latency_nice_word [of P h p]
    by (simp add: Let_def classified_def update_task_latency_nice_frame(1,3))
qed

theorem latency_class_assigned_witness:
  "let h' = update_task_latency_nice default_latency_params (example_heap(7 := example_task\<lparr>static_prio := 130\<rparr>)) (Some 7)
   in sint (latency_nice (latency_get_se h' 7)) = 19 \<and> sint (latency_offset (latency_get_se h' 7)) = 22800000"
proof -
  let ?h = "example_heap(7 := example_task\<lparr>static_prio := 130\<rparr>)"
  have "latency_task_is_eligible ?h 7" "sane_latency default_latency_params"
    by (simp_all add: latency_task_is_eligible_def example_task_def kernel_consts sane_latency_def
        default_latency_params_def DEFAULT_SCHED_LATENCY_MAX_def)
  from latency_class_assigned [OF this] show ?thesis
    by (simp add: Let_def example_task_def latency_class_def offset_spec_class
        default_latency_params_def DEFAULT_SCHED_LATENCY_MAX_def)
qed

text \<open>
  C10: the wake-up decision. After the module has classified the running tasks, the wake-up probe
  makes the offset negative (favouring the waking task) exactly when the waking task is latency
  critical and the running one is not, gives plus the maximum when it is the other way round, zero
  between two critical tasks, and otherwise the waking task's own offset.
\<close>

theorem latency_wakeup_decision:
  assumes "latency_task_is_eligible h c" and "latency_task_is_eligible h s"
    and "c \<in> set ts" and "s \<in> set ts"
    and "sane_latency P" and "sched_latency_nice_enabled P \<noteq> 0"
  shows "\<exists>g. probe_latency_wakeup_offset P (init_latency_tasks P ts h) (Some c) (Some s) (Some off) = Some g \<and>
    sint g = (let m = sint (sched_latency_max P); pc = sint (static_prio (h c)); ps = sint (static_prio (h s))
      in if ps < 120 then (if pc < 120 then 0 else - m)
         else if pc < 120 then m
         else if ps = 120 then 0 else m * 19 div 20)"
proof -
  let ?h = "init_latency_tasks P ts h" and ?m = "sint (sched_latency_max P)"
  have m: "0 \<le> ?m"
    using assms(5) by (simp add: sane_latency_def)
  have "classified P h c (latency_get_se ?h c)" "classified P h s (latency_get_se ?h s)"
    using assms by (simp_all add: init_latency_tasks_classified)
  then have "sint (wakeup_latency_gran P ?h c s) =
      gran_spec ?m (offset_spec ?m (latency_class (sint (static_prio (h c)))))
        (offset_spec ?m (latency_class (sint (static_prio (h s)))))"
    by (simp add: classified_def wakeup_latency_gran_int [OF m])
  then show ?thesis
    using assms(6) by (simp add: probe_latency_wakeup_offset_def Let_def gran_of_classes [OF m])
qed

theorem latency_wakeup_decision_witness:
  "\<exists>g. probe_latency_wakeup_offset default_latency_params
      (init_latency_tasks default_latency_params [5, 7] (example_heap(7 := example_task\<lparr>static_prio := 110\<rparr>)))
      (Some 5) (Some 7) (Some 0) = Some g \<and> sint g = - 24000000"
proof -
  let ?h = "example_heap(7 := example_task\<lparr>static_prio := 110\<rparr>)"
  have "latency_task_is_eligible ?h 5" "latency_task_is_eligible ?h 7"
    "sane_latency default_latency_params" "sched_latency_nice_enabled default_latency_params \<noteq> 0"
    by (simp_all add: latency_task_is_eligible_def example_task_def example_heap_def kernel_consts
        sane_latency_def default_latency_params_def DEFAULT_SCHED_LATENCY_MAX_def)
  moreover have "sint (static_prio (?h 5)) = 120" "sint (static_prio (?h 7)) = 110"
    "sint (sched_latency_max default_latency_params) = 24000000"
    by (simp_all add: example_task_def example_heap_def default_latency_params_def
        DEFAULT_SCHED_LATENCY_MAX_def)
  ultimately show ?thesis
    using latency_wakeup_decision [of ?h 5 7 "[5, 7]" default_latency_params 0]
    by (simp del: fun_upd_apply)
qed

end
