(* ===== verification/Latency_Module.thy ===== *)
theory Latency_Module
  imports Latency_Sched Hook_Registry
begin

text \<open>
  Loading and unloading of the latency-nice module, its sysctl table and its proc file
  (\<^verbatim>\<open>latency_sched_main.c\<close>, from \<open>latency_proc_show\<close> on). Unlike the BORE module it classifies
  the running tasks before it registers its four hooks, whether or not these are then available.
\<close>

section \<open>Definitions\<close>

text \<open>The globals: the tunables, the activity flag and the two remembered pointers.\<close>

record latency_state =
  lat_params :: latency_params
  latency_hooks_active :: bool
  latency_sysctl_header :: bool
  latency_proc_entry :: bool

datatype latency_hook =
    Latency_wakeup_offset | Latency_tick_offset | Latency_init_entity | Latency_set_user_nice

definition latency_proc_show :: "latency_state \<Rightarrow> string" where
  "latency_proc_show S =
    ''CFS Latency-Nice Scheduler Module (CachyOS / Vincent Guittot)'' @ NL @
    (if \<not> latency_hooks_active S
     then ''status:                      disabled (kernel hooks not present / no-op mode)'' @ NL
     else
       ''sched_latency_nice_enabled:  '' @ dec_nat (unat (sched_latency_nice_enabled (lat_params S))) @ NL @
       ''sched_latency_max:           '' @ dec_int (sint (sched_latency_max (lat_params S))) @ '' ns'' @ NL)"

definition latency_proc_open :: open_fn where
  "latency_proc_open = Single_open Latency_proc_show"

text \<open>The same operations whether the kernel takes \<open>proc_ops\<close> or \<open>file_operations\<close>.\<close>

definition latency_proc_fops :: "unit proc_ops" where
  "latency_proc_fops = \<lparr>this_module = False, proc_open = Some latency_proc_open, proc_read = Some Seq_read,
    proc_write = None, proc_lseek = Some Seq_lseek, proc_release = Some Single_release\<rparr>"

datatype latency_tunable = Sched_latency_nice_enabled | Sched_latency_max

definition latency_table :: "latency_tunable ctl_table list" where
  "latency_table =
    [ctl_uint ''sched_latency_nice_enabled'' Sched_latency_nice_enabled,
     \<lparr>procname = ''sched_latency_max'', data = Sched_latency_max, maxlen = 8, mode = mode_0644,
      handler = Proc_doulongvec_minmax\<rparr>]"

type_synonym latency_load_state = "latency_state \<times> latency_hook kernel_reg"

text \<open>The error labels of \<open>latency_sched_init\<close>, each falling through to the one below it.\<close>

definition latency_fail_hooks :: "bool \<Rightarrow> latency_load_state \<Rightarrow> s32 \<times> latency_load_state" where
  "latency_fail_hooks proc_ok = (\<lambda>(S, K).
    (0, S\<lparr>lat_params := (lat_params S)\<lparr>sched_latency_nice_enabled := 0\<rparr>, latency_hooks_active := False,
          latency_proc_entry := proc_ok\<rparr>,
     proc_create proc_ok ''latency_sched'' mode_0444 latency_proc_fops K))"

definition latency_fail_tick :: "bool \<Rightarrow> latency_load_state \<Rightarrow> s32 \<times> latency_load_state" where
  "latency_fail_tick proc_ok = (\<lambda>(S, K).
    latency_fail_hooks proc_ok (S, unregister_hook Latency_wakeup_offset K))"

definition latency_fail_init_entity :: "bool \<Rightarrow> latency_load_state \<Rightarrow> s32 \<times> latency_load_state" where
  "latency_fail_init_entity proc_ok = (\<lambda>(S, K).
    latency_fail_tick proc_ok (S, unregister_hook Latency_tick_offset K))"

definition latency_fail_user_nice :: "bool \<Rightarrow> latency_load_state \<Rightarrow> s32 \<times> latency_load_state" where
  "latency_fail_user_nice proc_ok = (\<lambda>(S, K).
    latency_fail_init_entity proc_ok (S, unregister_hook Latency_init_entity K))"

definition latency_register_all ::
  "(latency_hook \<Rightarrow> s32) \<Rightarrow> bool \<Rightarrow> bool \<Rightarrow> latency_state \<Rightarrow> latency_hook kernel_reg \<Rightarrow>
    s32 \<times> latency_load_state" where
  "latency_register_all reg sysctl_ok proc_ok S K =
    (let K1 = register_hook reg Latency_wakeup_offset K in
     if reg Latency_wakeup_offset \<noteq> 0 then latency_fail_hooks proc_ok (S, K1) else
     let K2 = register_hook reg Latency_tick_offset K1 in
     if reg Latency_tick_offset \<noteq> 0 then latency_fail_tick proc_ok (S, K2) else
     let K3 = register_hook reg Latency_init_entity K2 in
     if reg Latency_init_entity \<noteq> 0 then latency_fail_init_entity proc_ok (S, K3) else
     let K4 = register_hook reg Latency_set_user_nice K3 in
     if reg Latency_set_user_nice \<noteq> 0 then latency_fail_user_nice proc_ok (S, K4) else
     (0, S\<lparr>latency_hooks_active := True, latency_sysctl_header := sysctl_ok, latency_proc_entry := proc_ok\<rparr>,
      proc_create proc_ok ''latency_sched'' mode_0444 latency_proc_fops (register_sysctl sysctl_ok ''kernel'' K4)))"

definition latency_sched_init ::
  "(latency_hook \<Rightarrow> s32) \<Rightarrow> bool \<Rightarrow> bool \<Rightarrow> task list \<Rightarrow> latency_state \<times> heap \<Rightarrow>
    latency_hook kernel_reg \<Rightarrow> s32 \<times> (latency_state \<times> heap) \<times> latency_hook kernel_reg" where
  "latency_sched_init reg sysctl_ok proc_ok ts = (\<lambda>(S, h) K.
    let h' = init_latency_tasks (lat_params S) ts h;
        (r, S', K') = latency_register_all reg sysctl_ok proc_ok S K
    in (r, (S', h'), K'))"

definition latency_sched_exit ::
  "latency_state \<times> heap \<Rightarrow> latency_hook kernel_reg \<Rightarrow> latency_hook kernel_reg" where
  "latency_sched_exit = (\<lambda>(S, h) K.
    let K = (if latency_proc_entry S then proc_remove (''latency_sched'', mode_0444, latency_proc_fops) K else K) in
    if \<not> latency_hooks_active S then K
    else let K = (if latency_sysctl_header S then unregister_sysctl_table ''kernel'' K else K);
             K = unregister_hook Latency_set_user_nice K;
             K = unregister_hook Latency_init_entity K;
             K = unregister_hook Latency_tick_offset K
         in unregister_hook Latency_wakeup_offset K)"

text \<open>The hooks in the order they are registered.\<close>

definition latency_hooks :: "latency_hook list" where
  "latency_hooks = [Latency_wakeup_offset, Latency_tick_offset, Latency_init_entity, Latency_set_user_nice]"

lemmas latency_fail_defs = latency_fail_hooks_def latency_fail_tick_def latency_fail_init_entity_def
  latency_fail_user_nice_def

section \<open>Loading and unloading\<close>

lemma latency_register_all_ok:
  assumes "\<forall>k \<in> set latency_hooks. reg k = 0"
  shows "latency_register_all reg sysctl_ok proc_ok S K =
    (0, S\<lparr>latency_hooks_active := True, latency_sysctl_header := sysctl_ok, latency_proc_entry := proc_ok\<rparr>,
     proc_create proc_ok ''latency_sched'' mode_0444 latency_proc_fops (register_sysctl sysctl_ok ''kernel''
       (K\<lparr>attached := rev latency_hooks @ attached K\<rparr>)))"
  using assms by (simp add: latency_register_all_def latency_hooks_def register_hook_def Let_def)

lemma latency_register_all_fail:
  assumes "\<exists>k \<in> set latency_hooks. reg k \<noteq> 0"
  shows "latency_register_all reg sysctl_ok proc_ok S K =
    (0, S\<lparr>lat_params := (lat_params S)\<lparr>sched_latency_nice_enabled := 0\<rparr>, latency_hooks_active := False,
          latency_proc_entry := proc_ok\<rparr>,
     proc_create proc_ok ''latency_sched'' mode_0444 latency_proc_fops K)"
  using assms
  by (auto simp: latency_register_all_def latency_fail_defs latency_hooks_def register_hook_def
      unregister_hook_def Let_def)

interpretation latency_module: hook_module latency_hooks "''kernel''" "''latency_sched''" mode_0444 latency_proc_fops
  "\<lambda>reg sysctl_ok proc_ok. latency_sched_init reg sysctl_ok proc_ok ts" latency_sched_exit
  "\<lambda>(S, h). latency_hooks_active S" for ts
proof unfold_locales
  fix reg sysctl_ok proc_ok m and K :: "latency_hook kernel_reg" and r m' K'
  assume load: "latency_sched_init reg sysctl_ok proc_ok ts m K = (r, m', K')"
  obtain S h where m: "m = (S, h)" by fastforce
  show "r = 0 \<and> (case m' of (S, h) \<Rightarrow> latency_hooks_active S) \<and> K' = proc_create proc_ok ''latency_sched'' mode_0444 latency_proc_fops
      (register_sysctl sysctl_ok ''kernel'' (K\<lparr>attached := rev latency_hooks @ attached K\<rparr>))"
    if "\<forall>k \<in> set latency_hooks. reg k = 0"
    using load by (auto simp: latency_sched_init_def m latency_register_all_ok [OF that])
  show "r = 0 \<and> \<not> (case m' of (S, h) \<Rightarrow> latency_hooks_active S) \<and>
      K' = proc_create proc_ok ''latency_sched'' mode_0444 latency_proc_fops K"
    if "\<exists>k \<in> set latency_hooks. reg k \<noteq> 0"
    using load by (auto simp: latency_sched_init_def m latency_register_all_fail [OF that])
  show "latency_sched_exit m' K' = K"
  proof (cases "\<forall>k \<in> set latency_hooks. reg k = 0")
    case True
    then show ?thesis
      using load by (auto simp: latency_sched_init_def m latency_register_all_ok latency_sched_exit_def
          latency_hooks_def registry_defs)
  next
    case False
    then show ?thesis
      using load by (auto simp: latency_sched_init_def m latency_register_all_fail latency_sched_exit_def
          registry_defs)
  qed
qed

text \<open>
  Loading attaches all four hooks or none, switches latency-nice off when a hook is missing, and in
  both cases has classified the tasks of the loop; unloading leaves the registrations from before.
\<close>

lemma latency_load_all_or_nothing:
  "case latency_sched_init reg sysctl_ok proc_ok ts (S, h) K of (r, (S', h'), K') \<Rightarrow>
    r = 0 \<and> latency_hooks_active S' = (\<forall>k. reg k = 0) \<and>
    attached K' = (if latency_hooks_active S' then rev latency_hooks @ attached K else attached K) \<and>
    lat_params S' = (if latency_hooks_active S' then lat_params S
      else (lat_params S)\<lparr>sched_latency_nice_enabled := 0\<rparr>) \<and>
    h' = init_latency_tasks (lat_params S) ts h \<and> latency_sched_exit (S', h') K' = K"
proof -
  have all: "(\<forall>k \<in> set latency_hooks. reg k = 0) \<longleftrightarrow> (\<forall>k. reg k = 0)"
    by (auto simp: latency_hooks_def) (metis latency_hook.exhaust)
  have "case latency_sched_init reg sysctl_ok proc_ok ts (S, h) K of (r, (S', h'), K') \<Rightarrow>
    latency_sched_exit (S', h') K' = K"
    using latency_module.unload_undo by (auto split: prod.split)
  moreover have "case latency_sched_init reg sysctl_ok proc_ok ts (S, h) K of (r, (S', h'), K') \<Rightarrow>
    r = 0 \<and> latency_hooks_active S' = (\<forall>k. reg k = 0) \<and>
    attached K' = (if latency_hooks_active S' then rev latency_hooks @ attached K else attached K) \<and>
    lat_params S' = (if latency_hooks_active S' then lat_params S
      else (lat_params S)\<lparr>sched_latency_nice_enabled := 0\<rparr>) \<and>
    h' = init_latency_tasks (lat_params S) ts h"
  proof (cases "\<forall>k \<in> set latency_hooks. reg k = 0")
    case True
    then show ?thesis
      using all by (simp add: latency_sched_init_def latency_register_all_ok registry_defs)
  next
    case False
    then have "\<exists>k \<in> set latency_hooks. reg k \<noteq> 0" by blast
    from latency_register_all_fail [OF this] show ?thesis
      using False all by (auto simp: latency_sched_init_def registry_defs)
  qed
  ultimately show ?thesis
    by (auto split: prod.splits)
qed

end
