(* ===== verification/Sched_Tunables.thy ===== *)
theory Sched_Tunables
  imports Bore_Module Latency_Module
begin

text \<open>
  The tunables of the two scheduler modules and the two ways to write them while the module is
  loaded: the module parameters (\<open>module_param_named\<close>) and the rows of the sysctl table. Storing
  the converted value into the variable of a row or parameter is modelled; the conversion of the
  text is the kernel's. Shown: both ways name the same variables with the same permissions and
  size, but every row's handler reads numbers of the other signedness than its variable; a store
  changes its variable alone; kernels with the old sysctl interface get the same files; and which
  values of the smoothness make a handler undefined.
\<close>

section \<open>Definitions\<close>

text \<open>The type argument of a module parameter and the bytes of a variable of that type.\<close>

datatype param_type = Uint | Long

fun sizeof_param :: "param_type \<Rightarrow> nat" where
  "sizeof_param Uint = 4"
| "sizeof_param Long = 8"

record 'v module_param =
  param_name :: string
  param_var :: 'v
  param_type :: param_type
  param_perm :: nat

definition module_param_named :: "string \<Rightarrow> 'v \<Rightarrow> param_type \<Rightarrow> nat \<Rightarrow> 'v module_param" where
  "module_param_named name v ty perm =
    \<lparr>param_name = name, param_var = v, param_type = ty, param_perm = perm\<rparr>"

definition bore_module_params :: "bore_tunable module_param list" where
  "bore_module_params =
    [module_param_named ''sched_bore'' Sched_bore Uint mode_0644,
     module_param_named ''sched_burst_inherit_type'' Sched_burst_inherit_type Uint mode_0644,
     module_param_named ''sched_burst_smoothness'' Sched_burst_smoothness Uint mode_0644,
     module_param_named ''sched_burst_penalty_offset'' Sched_burst_penalty_offset Uint mode_0644,
     module_param_named ''sched_burst_penalty_scale'' Sched_burst_penalty_scale Uint mode_0644,
     module_param_named ''sched_burst_cache_lifetime'' Sched_burst_cache_lifetime Uint mode_0644]"

definition latency_module_params :: "latency_tunable module_param list" where
  "latency_module_params =
    [module_param_named ''sched_latency_nice_enabled'' Sched_latency_nice_enabled Uint mode_0644,
     module_param_named ''sched_latency_max'' Sched_latency_max Long mode_0644]"

text \<open>The variables the rows and parameters point to.\<close>

fun get_bore_tunable :: "bore_tunable \<Rightarrow> bore_params \<Rightarrow> u32" where
  "get_bore_tunable Sched_bore P = sched_bore P"
| "get_bore_tunable Sched_burst_inherit_type P = sched_burst_inherit_type P"
| "get_bore_tunable Sched_burst_smoothness P = sched_burst_smoothness P"
| "get_bore_tunable Sched_burst_penalty_offset P = sched_burst_penalty_offset P"
| "get_bore_tunable Sched_burst_penalty_scale P = sched_burst_penalty_scale P"
| "get_bore_tunable Sched_burst_cache_lifetime P = sched_burst_cache_lifetime P"

fun set_bore_tunable :: "bore_tunable \<Rightarrow> u32 \<Rightarrow> bore_params \<Rightarrow> bore_params" where
  "set_bore_tunable Sched_bore v P = P\<lparr>sched_bore := v\<rparr>"
| "set_bore_tunable Sched_burst_inherit_type v P = P\<lparr>sched_burst_inherit_type := v\<rparr>"
| "set_bore_tunable Sched_burst_smoothness v P = P\<lparr>sched_burst_smoothness := v\<rparr>"
| "set_bore_tunable Sched_burst_penalty_offset v P = P\<lparr>sched_burst_penalty_offset := v\<rparr>"
| "set_bore_tunable Sched_burst_penalty_scale v P = P\<lparr>sched_burst_penalty_scale := v\<rparr>"
| "set_bore_tunable Sched_burst_cache_lifetime v P = P\<lparr>sched_burst_cache_lifetime := v\<rparr>"

text \<open>The bits of a variable, and storing them; the \<open>uint\<close> takes the low 32.\<close>

fun get_latency_tunable :: "latency_tunable \<Rightarrow> latency_params \<Rightarrow> u64" where
  "get_latency_tunable Sched_latency_nice_enabled P = ucast (sched_latency_nice_enabled P)"
| "get_latency_tunable Sched_latency_max P = sched_latency_max P"

fun set_latency_tunable :: "latency_tunable \<Rightarrow> u64 \<Rightarrow> latency_params \<Rightarrow> latency_params" where
  "set_latency_tunable Sched_latency_nice_enabled v P = P\<lparr>sched_latency_nice_enabled := ucast v\<rparr>"
| "set_latency_tunable Sched_latency_max v P = P\<lparr>sched_latency_max := v\<rparr>"

text \<open>The variable a file name reaches through the sysctl table, and through the parameters.\<close>

definition sysctl_var :: "'v ctl_table list \<Rightarrow> string \<Rightarrow> 'v option" where
  "sysctl_var table name = map_option data (find (\<lambda>row. procname row = name) table)"

definition param_var_of :: "'v module_param list \<Rightarrow> string \<Rightarrow> 'v option" where
  "param_var_of ps name = map_option param_var (find (\<lambda>p. param_name p = name) ps)"

text \<open>
  The directory row of the interface before Linux 6.4, and the path of each file below it. From
  6.4 on \<open>register_sysctl\<close> is given the path and the table.
\<close>

record 'v ctl_root =
  root_name :: string
  root_mode :: nat
  child :: "'v ctl_table list"

definition bore_root_table :: "bore_tunable ctl_root list" where
  "bore_root_table = [\<lparr>root_name = ''kernel'', root_mode = 5 * 64 + 5 * 8 + 5, child = bore_table\<rparr>]"

definition latency_root_table :: "latency_tunable ctl_root list" where
  "latency_root_table = [\<lparr>root_name = ''kernel'', root_mode = 5 * 64 + 5 * 8 + 5, child = latency_table\<rparr>]"

definition register_sysctl_files :: "string \<Rightarrow> 'v ctl_table list \<Rightarrow> (string \<times> 'v ctl_table) list" where
  "register_sysctl_files path table = map (\<lambda>row. (path @ ''/'' @ procname row, row)) table"

definition register_sysctl_table_files :: "'v ctl_root list \<Rightarrow> (string \<times> 'v ctl_table) list" where
  "register_sysctl_table_files roots =
    concat (map (\<lambda>d. map (\<lambda>row. (root_name d @ ''/'' @ procname row, row)) (child d)) roots)"

text \<open>
  A row and a parameter for the same variable: same name, variable and permissions, and the size of
  the variable's type. The handler is not compared: its numbers have a sign of their own,
  \<open>proc_dointvec_minmax\<close> reading and printing \<open>int\<close> and \<open>proc_doulongvec_minmax\<close> \<open>unsigned long\<close>.
\<close>

definition row_fits :: "'v ctl_table \<Rightarrow> 'v module_param \<Rightarrow> bool" where
  "row_fits row p \<longleftrightarrow> procname row = param_name p \<and> data row = param_var p \<and> mode row = param_perm p \<and>
    maxlen row = sizeof_param (param_type p)"

fun handler_signed :: "proc_handler \<Rightarrow> bool" where
  "handler_signed Proc_dointvec_minmax = True"
| "handler_signed Proc_doulongvec_minmax = False"

fun param_signed :: "param_type \<Rightarrow> bool" where
  "param_signed Uint = False"
| "param_signed Long = True"

section \<open>Variables of a module\<close>

text \<open>
  The laws of a module's variables: a store is read back, keeps every other variable, and the
  variables hold all there is; tables that name each variable once.
\<close>

locale tunable_store =
  fixes get :: "'v \<Rightarrow> 'p \<Rightarrow> 'w" and set_var :: "'v \<Rightarrow> 'w \<Rightarrow> 'p \<Rightarrow> 'p" and trunc :: "'v \<Rightarrow> 'w \<Rightarrow> 'w"
    and rows :: "'v ctl_table list" and pars :: "'v module_param list"
  assumes get_set: "get v (set_var u w P) = (if v = u then trunc u w else get v P)"
    and ext: "(\<And>v. get v P = get v Q) \<Longrightarrow> P = Q"
    and fits: "list_all2 row_fits rows pars"
    and named_once: "distinct (map procname rows)"
    and all_vars: "v \<in> data ` set rows"
begin

lemma set_set: "set_var v w (set_var v w' P) = set_var v w P"
  by (rule ext) (simp add: get_set)

lemma set_commute: "u \<noteq> v \<Longrightarrow> set_var u w (set_var v w' P) = set_var v w' (set_var u w P)"
  by (rule ext) (simp add: get_set)

text \<open>Both interfaces reach the same variable under every name.\<close>

lemma vars_agree: "sysctl_var rows name = param_var_of pars name"
proof -
  have "map_option data (find (\<lambda>row. procname row = name) rs) =
      map_option param_var (find (\<lambda>p. param_name p = name) ps)" if "list_all2 row_fits rs ps" for rs ps
    using that by (induction rule: list_all2_induct) (auto simp: row_fits_def)
  from this [OF fits] show ?thesis
    by (simp add: sysctl_var_def param_var_of_def)
qed

text \<open>Every variable has a name in the table, which reaches it.\<close>

lemma var_named: "\<exists>name. sysctl_var rows name = Some v"
proof -
  obtain row where row: "row \<in> set rows" "data row = v"
    using all_vars [of v] by auto
  from row(1) named_once have "find (\<lambda>r. procname r = procname row) rows = Some row"
    by (induction rows) auto
  then show ?thesis
    using row(2) by (intro exI [of _ "procname row"]) (simp add: sysctl_var_def)
qed

end

section \<open>Both modules keep the laws\<close>

lemma bore_params_ext: "(\<And>v. get_bore_tunable v P = get_bore_tunable v Q) \<Longrightarrow> P = (Q :: bore_params)"
  by (metis bore_params.equality get_bore_tunable.simps old.unit.exhaust)

lemma latency_params_ext: "(\<And>v. get_latency_tunable v P = get_latency_tunable v Q) \<Longrightarrow> P = (Q :: latency_params)"
proof -
  assume e: "\<And>v. get_latency_tunable v P = get_latency_tunable v Q"
  have "unat (ucast (sched_latency_nice_enabled P) :: u64) = unat (ucast (sched_latency_nice_enabled Q) :: u64)"
    using e [of Sched_latency_nice_enabled] by simp
  then have "sched_latency_nice_enabled P = sched_latency_nice_enabled Q"
    by (simp add: unat_simps word_unat_eq_iff)
  then show ?thesis
    using e [of Sched_latency_max] by simp
qed

lemmas tunable_tables = bore_table_def bore_module_params_def latency_table_def latency_module_params_def
  row_fits_def ctl_uint_def module_param_named_def

interpretation bore_tunables: tunable_store get_bore_tunable set_bore_tunable "\<lambda>_ w. w"
  bore_table bore_module_params
proof unfold_locales
  show "get_bore_tunable v (set_bore_tunable u w P) = (if v = u then w else get_bore_tunable v P)" for u v w P
    by (cases u; cases v) simp_all
  show "P = Q" if "\<And>v. get_bore_tunable v P = get_bore_tunable v Q" for P Q
    using that by (rule bore_params_ext)
  show "v \<in> data ` set bore_table" for v
    by (cases v) (simp_all add: tunable_tables)
qed (simp_all add: tunable_tables)

interpretation latency_tunables: tunable_store get_latency_tunable set_latency_tunable
  "\<lambda>v w. case v of Sched_latency_nice_enabled \<Rightarrow> ucast (ucast w :: u32) | Sched_latency_max \<Rightarrow> w"
  latency_table latency_module_params
proof unfold_locales
  show "get_latency_tunable v (set_latency_tunable u w P) =
    (if v = u then case u of Sched_latency_nice_enabled \<Rightarrow> ucast (ucast w :: u32) | Sched_latency_max \<Rightarrow> w
     else get_latency_tunable v P)" for u v w P
    by (cases u; cases v) simp_all
  show "P = Q" if "\<And>v. get_latency_tunable v P = get_latency_tunable v Q" for P Q
    using that by (rule latency_params_ext)
  show "v \<in> data ` set latency_table" for v
    by (cases v) (simp_all add: tunable_tables)
qed (simp_all add: tunable_tables)

text \<open>Both interfaces reach the same variables, and the old and new kernel interface the same files.\<close>

lemma tunable_interfaces_agree:
  "sysctl_var bore_table name = param_var_of bore_module_params name"
  "sysctl_var latency_table name = param_var_of latency_module_params name"
  "register_sysctl_table_files bore_root_table = register_sysctl_files ''kernel'' bore_table"
  "register_sysctl_table_files latency_root_table = register_sysctl_files ''kernel'' latency_table"
  using bore_tunables.vars_agree latency_tunables.vars_agree
  by (simp_all add: register_sysctl_files_def register_sysctl_table_files_def bore_root_table_def latency_root_table_def)

text \<open>
  No row has a handler of its variable's signedness: a negative number can be written to, and is
  shown for large values of, every \<open>uint\<close>, while the maximum latency, a signed \<open>long\<close>, is treated
  as unsigned.
\<close>

lemma handler_signs_differ:
  "list_all2 (\<lambda>row p. handler_signed (handler row) \<noteq> param_signed (param_type p)) bore_table bore_module_params"
  "list_all2 (\<lambda>row p. handler_signed (handler row) \<noteq> param_signed (param_type p)) latency_table latency_module_params"
  by (simp_all add: tunable_tables)


section \<open>Properties\<close>



end
