(* ===== verification/Hook_Dispatch.thy ===== *)
theory Hook_Dispatch
  imports Sched_Tunables
begin

text \<open>
  The vendor hooks as the modules declare them (\<^verbatim>\<open>trace/hooks/bore.h\<close>, \<^verbatim>\<open>trace/hooks/latency.h\<close>) and
  the two scheduler modules in one kernel. A hook call carries the arguments of its prototype and
  runs the module's probe when that probe is attached. The system's steps are hook calls, loading
  and unloading of either module, writes of tunables, and what the kernel does to tasks. Shown:
  probes run only while their module is loaded with all its hooks, an unloaded module leaves no
  registration behind, and the penalties of all tasks are bounded on every reachable state, although
  the latency module writes into a reserved word of the BORE context.
\<close>

section \<open>Definitions\<close>

text \<open>
  The hook calls of the fair scheduler, one constructor per \<open>DECLARE_HOOK\<close> with the arguments of
  its \<open>TP_PROTO\<close>. Pointer arguments are \<^const>\<open>None\<close> for NULL; an \<open>int *\<close> or \<open>s64 *\<close> is the value it
  points to. A \<open>sched_entity\<close> is the task it is embedded in.
\<close>

datatype bore_call =
    Call_update_curr "task option" u64 "s32 option"
  | Call_dequeue_task_fair "task option" s32
  | Call_set_next_entity "task option"
  | Call_yield_task_fair "task option"
  | Call_task_fork "task option"
  | Call_init_entity "task option"
  | Call_set_load_weight "task option" "s32 option"

datatype latency_call =
    Call_wakeup_offset "task option" "task option" "s64 option"
  | Call_tick_offset "task option" "task option" "s64 option"
  | Call_latency_init_entity "task option"
  | Call_set_user_nice "task option"

fun bore_call_hook :: "bore_call \<Rightarrow> bore_hook" where
  "bore_call_hook (Call_update_curr p d np) = Bore_update_curr"
| "bore_call_hook (Call_dequeue_task_fair p fl) = Bore_dequeue_task_fair"
| "bore_call_hook (Call_set_next_entity se) = Bore_set_next_entity"
| "bore_call_hook (Call_yield_task_fair p) = Bore_yield_task_fair"
| "bore_call_hook (Call_task_fork p) = Bore_task_fork"
| "bore_call_hook (Call_init_entity se) = Bore_init_entity"
| "bore_call_hook (Call_set_load_weight p prio) = Bore_set_load_weight"

fun latency_call_hook :: "latency_call \<Rightarrow> latency_hook" where
  "latency_call_hook (Call_wakeup_offset c s off) = Latency_wakeup_offset"
| "latency_call_hook (Call_tick_offset c s off) = Latency_tick_offset"
| "latency_call_hook (Call_latency_init_entity se) = Latency_init_entity"
| "latency_call_hook (Call_set_user_nice p) = Latency_set_user_nice"

text \<open>What the output argument of a call holds before it.\<close>

fun bore_call_out :: "bore_call \<Rightarrow> s32 option" where
  "bore_call_out (Call_update_curr p d np) = np"
| "bore_call_out (Call_set_load_weight p prio) = prio"
| "bore_call_out _ = None"

fun latency_call_out :: "latency_call \<Rightarrow> s64 option" where
  "latency_call_out (Call_wakeup_offset c s off) = off"
| "latency_call_out (Call_tick_offset c s off) = off"
| "latency_call_out _ = None"

text \<open>
  The probe the init function registers for each hook. The fork probe also reads \<open>current\<close> and the
  clock. \<^const>\<open>None\<close> where the probe has no defined result.
\<close>

fun bore_probe ::
  "bore_state \<Rightarrow> task option \<Rightarrow> u64 \<Rightarrow> heap \<Rightarrow> bore_call \<Rightarrow> (heap \<times> s32 option) option" where
  "bore_probe S cur now h (Call_update_curr p d np) = Some (probe_bore_update_curr S h p d np)"
| "bore_probe S cur now h (Call_dequeue_task_fair p fl) =
    map_option (\<lambda>h'. (h', None)) (probe_bore_dequeue_task_fair S h p fl)"
| "bore_probe S cur now h (Call_set_next_entity se) = Some (probe_bore_set_next_entity S h se, None)"
| "bore_probe S cur now h (Call_yield_task_fair p) =
    map_option (\<lambda>h'. (h', None)) (probe_bore_yield_task_fair S h p)"
| "bore_probe S cur now h (Call_task_fork p) =
    map_option (\<lambda>h'. (h', None)) (probe_bore_task_fork S h cur p now)"
| "bore_probe S cur now h (Call_init_entity se) = Some (probe_bore_init_entity h se, None)"
| "bore_probe S cur now h (Call_set_load_weight p prio) = Some (h, probe_bore_set_load_weight S h p prio)"

fun latency_probe :: "latency_state \<Rightarrow> heap \<Rightarrow> latency_call \<Rightarrow> heap \<times> s64 option" where
  "latency_probe S h (Call_wakeup_offset c s off) =
    (h, probe_latency_wakeup_offset (lat_params S) h c s off)"
| "latency_probe S h (Call_tick_offset c s off) = (h, probe_latency_tick_offset (lat_params S) h c s off)"
| "latency_probe S h (Call_latency_init_entity se) = (probe_latency_init_entity h se, None)"
| "latency_probe S h (Call_set_user_nice p) = (probe_latency_set_user_nice (lat_params S) h p, None)"

text \<open>A hook call runs the probe attached to the hook, if there is one.\<close>

definition trace_hook :: "'k kernel_reg \<Rightarrow> 'k \<Rightarrow> 'r \<Rightarrow> 'r \<Rightarrow> 'r" where
  "trace_hook K k run idle = (if k \<in> set (attached K) then run else idle)"

definition trace_android_vh_bore ::
  "bore_hook kernel_reg \<Rightarrow> bore_state \<Rightarrow> task option \<Rightarrow> u64 \<Rightarrow> heap \<Rightarrow> bore_call \<Rightarrow> (heap \<times> s32 option) option" where
  "trace_android_vh_bore K S cur now h c =
    trace_hook K (bore_call_hook c) (bore_probe S cur now h c) (Some (h, bore_call_out c))"

definition trace_android_vh_latency ::
  "latency_hook kernel_reg \<Rightarrow> latency_state \<Rightarrow> heap \<Rightarrow> latency_call \<Rightarrow> heap \<times> s64 option" where
  "trace_android_vh_latency K S h c =
    trace_hook K (latency_call_hook c) (latency_probe S h c) (h, latency_call_out c)"

text \<open>The globals of a module that has just been inserted, with the parameters given to it.\<close>

definition bore_globals :: "bore_params \<Rightarrow> bore_state" where
  "bore_globals P = \<lparr>params = P, bore_reciprocal_lut = replicate 64 0, bore_hooks_active = False,
    bore_sysctl_header = False, bore_proc_entry = False\<rparr>"

definition latency_globals :: "latency_params \<Rightarrow> latency_state" where
  "latency_globals P = \<lparr>lat_params = P, latency_hooks_active = False, latency_sysctl_header = False,
    latency_proc_entry = False\<rparr>"

definition no_reg :: "'k kernel_reg" where
  "no_reg = \<lparr>attached = [], sysctl_tables = [], proc_entries = []\<rparr>"

text \<open>A kernel with the two modules; a module that is not loaded has no globals.\<close>

record sched_system =
  sys_heap :: heap
  bore_mod :: "bore_state option"
  bore_reg :: "bore_hook kernel_reg"
  latency_mod :: "latency_state option"
  latency_reg :: "latency_hook kernel_reg"

inductive sched_step :: "sched_system \<Rightarrow> sched_system \<Rightarrow> bool" where
  insmod_bore: "bore_mod s = None \<Longrightarrow>
    bore_sched_init reg sysctl_ok proc_ok ts (bore_globals P, sys_heap s) (bore_reg s) = (0, (S, h), K) \<Longrightarrow>
    sched_step s (s\<lparr>sys_heap := h, bore_mod := Some S, bore_reg := K\<rparr>)"
| rmmod_bore: "bore_mod s = Some S \<Longrightarrow>
    sched_step s (s\<lparr>bore_mod := None, bore_reg := bore_sched_exit (S, sys_heap s) (bore_reg s)\<rparr>)"
| bore_hook: "bore_mod s = Some S \<Longrightarrow>
    trace_android_vh_bore (bore_reg s) S cur now (sys_heap s) c = Some (h, out) \<Longrightarrow>
    sched_step s (s\<lparr>sys_heap := h\<rparr>)"
| bore_tunable: "bore_mod s = Some S \<Longrightarrow>
    sched_step s (s\<lparr>bore_mod := Some (S\<lparr>params := set_bore_tunable v w (params S)\<rparr>)\<rparr>)"
| insmod_latency: "latency_mod s = None \<Longrightarrow>
    latency_sched_init lreg sysctl_ok proc_ok ts (latency_globals Q, sys_heap s) (latency_reg s) = (0, (T, h), L) \<Longrightarrow>
    sched_step s (s\<lparr>sys_heap := h, latency_mod := Some T, latency_reg := L\<rparr>)"
| rmmod_latency: "latency_mod s = Some T \<Longrightarrow>
    sched_step s (s\<lparr>latency_mod := None, latency_reg := latency_sched_exit (T, sys_heap s) (latency_reg s)\<rparr>)"
| latency_hook: "latency_mod s = Some T \<Longrightarrow>
    trace_android_vh_latency (latency_reg s) T (sys_heap s) lc = (h, lout) \<Longrightarrow>
    sched_step s (s\<lparr>sys_heap := h\<rparr>)"
| latency_tunable: "latency_mod s = Some T \<Longrightarrow>
    sched_step s (s\<lparr>latency_mod := Some (T\<lparr>lat_params := set_latency_tunable u x (lat_params T)\<rparr>)\<rparr>)"
| kernel: "(\<forall>t. kabi_area (h t) = kabi_area (sys_heap s t)) \<Longrightarrow> sched_step s (s\<lparr>sys_heap := h\<rparr>)"
| duplicate: "sched_step s (s\<lparr>sys_heap := set_kabi (sys_heap s) chld (kabi_area (sys_heap s parent))\<rparr>)"

inductive sched_reachable :: "sched_system \<Rightarrow> bool" where
  boot: "\<forall>t. bore_get_ctx h t = zero_bore_ctx \<Longrightarrow>
    sched_reachable \<lparr>sys_heap = h, bore_mod = None, bore_reg = no_reg, latency_mod = None, latency_reg = no_reg\<rparr>"
| step: "sched_reachable s \<Longrightarrow> sched_step s s' \<Longrightarrow> sched_reachable s'"

text \<open>
  Any sequence of probe runs of both modules, each with whatever tunables are set at that moment.
\<close>

inductive hook_calls :: "heap \<Rightarrow> heap \<Rightarrow> bool" where
  no_call: "hook_calls h h"
| bore_run: "hook_calls h h' \<Longrightarrow> bore_probe S cur now h' c = Some (h'', out) \<Longrightarrow> hook_calls h h''"
| latency_run: "hook_calls h h' \<Longrightarrow> latency_probe T h' lc = (h'', lout) \<Longrightarrow> hook_calls h h''"

text \<open>
  What a loaded module has registered, from its flags: all its hooks and possibly a table when
  active, none when not, and possibly a proc entry.
\<close>

definition module_reg ::
  "'k list \<Rightarrow> string \<Rightarrow> string \<Rightarrow> nat \<Rightarrow> unit proc_ops \<Rightarrow> bool \<Rightarrow> bool \<Rightarrow> bool \<Rightarrow> 'k kernel_reg" where
  "module_reg hooks table entry md fops act sysctl_set proc_set =
    proc_create proc_set entry md fops
      (if act then register_sysctl sysctl_set table (no_reg\<lparr>attached := rev hooks\<rparr>) else no_reg)"

definition bore_registered :: "bore_state option \<Rightarrow> bore_hook kernel_reg \<Rightarrow> bool" where
  "bore_registered M K \<longleftrightarrow> K = (case M of None \<Rightarrow> no_reg | Some S \<Rightarrow>
    module_reg bore_hooks ''kernel'' ''bore'' mode_0444 bore_proc_fops (bore_hooks_active S) (bore_sysctl_header S) (bore_proc_entry S))"

definition latency_registered :: "latency_state option \<Rightarrow> latency_hook kernel_reg \<Rightarrow> bool" where
  "latency_registered M K \<longleftrightarrow> K = (case M of None \<Rightarrow> no_reg | Some S \<Rightarrow>
    module_reg latency_hooks ''kernel'' ''latency_sched'' mode_0444 latency_proc_fops (latency_hooks_active S)
      (latency_sysctl_header S) (latency_proc_entry S))"

section \<open>Modules that remember what they registered\<close>

text \<open>
  The contract of a module whose flags tell, at any later time, what it registered: loading into an
  empty registry leaves what the flags say, and unloading empties a registry that is as they say.
\<close>

locale hook_service = hook_module hooks table entry md fops load unload active
  for hooks :: "'k list" and table :: string and entry :: string and md :: nat and fops :: "unit proc_ops"
    and load :: "('k \<Rightarrow> s32) \<Rightarrow> bool \<Rightarrow> bool \<Rightarrow> 'm \<Rightarrow> 'k kernel_reg \<Rightarrow> s32 \<times> 'm \<times> 'k kernel_reg"
    and unload :: "'m \<Rightarrow> 'k kernel_reg \<Rightarrow> 'k kernel_reg"
    and active :: "'m \<Rightarrow> bool" +
  fixes sysctl_set :: "'m \<Rightarrow> bool" and proc_set :: "'m \<Rightarrow> bool"
  assumes load_flags: "load reg sysctl_ok proc_ok m K = (r, m', K') \<Longrightarrow>
      proc_set m' = proc_ok \<and> (active m' \<longrightarrow> sysctl_set m' = sysctl_ok)"
    and unload_reg: "unload m (module_reg hooks table entry md fops (active m) (sysctl_set m) (proc_set m)) = no_reg"
    and all_hooks: "k \<in> set hooks"
begin

lemma load_registers:
  assumes "load reg sysctl_ok proc_ok m no_reg = (r, m', K')"
  shows "K' = module_reg hooks table entry md fops (active m') (sysctl_set m') (proc_set m')"
proof (cases "\<forall>k \<in> set hooks. reg k = 0")
  case True
  then show ?thesis
    using load_all [OF True assms] load_flags [OF assms] by (auto simp: module_reg_def no_reg_def)
next
  case False
  then have "\<exists>k \<in> set hooks. reg k \<noteq> 0" by blast
  then show ?thesis
    using load_none [OF _ assms] load_flags [OF assms] by (auto simp: module_reg_def)
qed

lemma attached_iff:
  "k \<in> set (attached (module_reg hooks table entry md fops act sysctl proc)) \<longleftrightarrow> act"
  using all_hooks [of k] by (simp add: module_reg_def proc_create_def register_sysctl_def no_reg_def)

text \<open>A hook call in the registry of a loaded module runs the probe exactly when it is active.\<close>

lemma trace_loaded:
  "trace_hook (module_reg hooks table entry md fops act sysctl proc) k run idle = (if act then run else idle)"
  by (simp add: trace_hook_def attached_iff)

end

lemma attached_no_reg: "attached no_reg = []"
  by (simp add: no_reg_def)

lemma trace_no_reg [simp]: "trace_hook no_reg k run idle = idle"
  by (simp add: trace_hook_def no_reg_def)

lemma bore_register_all_flags:
  "bore_register_all reg sysctl_ok proc_ok S K = (r, S', K') \<Longrightarrow>
    bore_proc_entry S' = proc_ok \<and> (bore_hooks_active S' \<longrightarrow> bore_sysctl_header S' = sysctl_ok)"
  by (cases "\<forall>k \<in> set bore_hooks. reg k = 0") (auto simp: bore_register_all_ok bore_register_all_fail)

lemma latency_register_all_flags:
  "latency_register_all reg sysctl_ok proc_ok S K = (r, S', K') \<Longrightarrow>
    latency_proc_entry S' = proc_ok \<and> (latency_hooks_active S' \<longrightarrow> latency_sysctl_header S' = sysctl_ok)"
  by (cases "\<forall>k \<in> set latency_hooks. reg k = 0") (auto simp: latency_register_all_ok latency_register_all_fail)

lemmas module_reg_defs = module_reg_def no_reg_def registry_defs

interpretation bore_service: hook_service bore_hooks "''kernel''" "''bore''" mode_0444 bore_proc_fops
  "\<lambda>reg sysctl_ok proc_ok. bore_sched_init reg sysctl_ok proc_ok ts" bore_sched_exit
  "\<lambda>(S, h). bore_hooks_active S" "\<lambda>(S, h). bore_sysctl_header S" "\<lambda>(S, h). bore_proc_entry S" for ts
proof unfold_locales
  fix reg sysctl_ok proc_ok m and K :: "bore_hook kernel_reg" and r m' K'
  assume "bore_sched_init reg sysctl_ok proc_ok ts m K = (r, m', K')"
  then show "(case m' of (S, h) \<Rightarrow> bore_proc_entry S) = proc_ok \<and>
      ((case m' of (S, h) \<Rightarrow> bore_hooks_active S) \<longrightarrow> (case m' of (S, h) \<Rightarrow> bore_sysctl_header S) = sysctl_ok)"
    by (auto simp: bore_sched_init_def split: prod.splits dest!: bore_register_all_flags)
next
  show "bore_sched_exit m (module_reg bore_hooks ''kernel'' ''bore'' mode_0444 bore_proc_fops (case m of (S, h) \<Rightarrow> bore_hooks_active S)
      (case m of (S, h) \<Rightarrow> bore_sysctl_header S) (case m of (S, h) \<Rightarrow> bore_proc_entry S)) = no_reg" for m
    by (cases m) (simp add: bore_sched_exit_def module_reg_defs bore_hooks_def)
next
  show "k \<in> set bore_hooks" for k
    by (cases k) (simp_all add: bore_hooks_def)
qed

interpretation latency_service: hook_service latency_hooks "''kernel''" "''latency_sched''" mode_0444 latency_proc_fops
  "\<lambda>reg sysctl_ok proc_ok. latency_sched_init reg sysctl_ok proc_ok ts" latency_sched_exit
  "\<lambda>(S, h). latency_hooks_active S" "\<lambda>(S, h). latency_sysctl_header S" "\<lambda>(S, h). latency_proc_entry S" for ts
proof unfold_locales
  fix reg sysctl_ok proc_ok m and K :: "latency_hook kernel_reg" and r m' K'
  assume "latency_sched_init reg sysctl_ok proc_ok ts m K = (r, m', K')"
  then show "(case m' of (S, h) \<Rightarrow> latency_proc_entry S) = proc_ok \<and>
      ((case m' of (S, h) \<Rightarrow> latency_hooks_active S) \<longrightarrow> (case m' of (S, h) \<Rightarrow> latency_sysctl_header S) = sysctl_ok)"
    by (auto simp: latency_sched_init_def split: prod.splits dest!: latency_register_all_flags)
next
  show "latency_sched_exit m (module_reg latency_hooks ''kernel'' ''latency_sched'' mode_0444 latency_proc_fops
      (case m of (S, h) \<Rightarrow> latency_hooks_active S) (case m of (S, h) \<Rightarrow> latency_sysctl_header S)
      (case m of (S, h) \<Rightarrow> latency_proc_entry S)) = no_reg" for m
    by (cases m) (simp add: latency_sched_exit_def module_reg_defs latency_hooks_def)
next
  show "k \<in> set latency_hooks" for k
    by (cases k) (simp_all add: latency_hooks_def)
qed

section \<open>The reserved words under both modules\<close>

lemma latency_put_bore_ctx:
  "bore_get_ctx (latency_put_se h p e) q =
    (if q = p then (bore_get_ctx h p)\<lparr>burst_time := latency_word (latency_offset e) (latency_nice e) (lse_flags e)\<rparr>
     else bore_get_ctx h q)"
  by (simp add: bore_get_ctx_def latency_put_se_def latency_store_def bore_load_def)

text \<open>The bound on the penalties does not speak of the run time, the one field the two share.\<close>

lemma heap_ok_latency_put: "heap_ok h \<Longrightarrow> heap_ok (latency_put_se h p e)"
  by (simp add: heap_ok_def ctx_ok_def latency_put_bore_ctx)

lemma heap_ok_update_latency: "heap_ok h \<Longrightarrow> heap_ok (update_task_latency_nice P h p)"
  by (auto simp: update_task_latency_nice_def Let_def intro: heap_ok_latency_put split: option.split)

lemma heap_ok_init_latency: "heap_ok h \<Longrightarrow> heap_ok (init_latency_tasks P ts h)"
  unfolding init_latency_tasks_def
  by (induction ts arbitrary: h) (auto intro: heap_ok_update_latency)

lemma heap_ok_latency_probe: "heap_ok h \<Longrightarrow> heap_ok (fst (latency_probe S h c))"
  by (cases c) (auto simp: probe_latency_init_entity_def probe_latency_set_user_nice_def
      intro: heap_ok_latency_put heap_ok_update_latency split: option.split)

lemma heap_ok_init_bore: "heap_ok h \<Longrightarrow> heap_ok (init_bore_tasks ts h)"
  by (simp add: heap_ok_def init_bore_tasks_ctx)

lemma heap_ok_bore_probe:
  assumes "heap_ok h" and "lut_ready S" and "bore_probe S cur now h c = Some (h', out)"
  shows "heap_ok h'"
  using assms
proof (cases c)
  case (Call_update_curr p d np)
  then show ?thesis
    using assms update_curr_keeps_ok [OF assms(1), of S p d np] by simp
qed (auto simp: probe_bore_set_next_entity_def
    intro: dequeue_keeps_ok yield_keeps_ok fork_keeps_ok init_entity_keeps_ok)

section \<open>Protected tasks\<close>

text \<open>A protected task without a penalty keeps it at zero through every probe of either module.\<close>

lemma restart_burst_penalty:
  "restart_burst_bore P p ctx np = Some (ctx', np') \<Longrightarrow> is_protected p \<Longrightarrow> penalty ctx' = 0"
  by (auto simp: restart_burst_bore_def bind_eq_Some_conv update_penalty_ctx dest!: arg_cong [where f = fst])

lemma end_of_burst_protected:
  assumes "probe_bore_dequeue_task_fair S h p fl = Some h' \<or> probe_bore_yield_task_fair S h p = Some h'"
  shows "same_task_but_kabi h h'"
    and "is_protected (h t) \<Longrightarrow> penalty (bore_get_ctx h t) = 0 \<Longrightarrow> penalty (bore_get_ctx h' t) = 0"
  using assms restart_burst_penalty
  by (auto simp: probe_bore_dequeue_task_fair_def probe_bore_yield_task_fair_def bind_eq_Some_conv
      split: option.splits if_splits)

lemma fork_protected:
  assumes "probe_bore_task_fork S h cur p now = Some h'"
  shows "same_task_but_kabi h h'"
    and "is_protected (h t) \<Longrightarrow> penalty (bore_get_ctx h t) = 0 \<Longrightarrow> penalty (bore_get_ctx h' t) = 0"
proof -
  have "same_task_but_kabi h h' \<and>
    (is_protected (h t) \<longrightarrow> penalty (bore_get_ctx h t) = 0 \<longrightarrow> penalty (bore_get_ctx h' t) = 0)"
  proof (rule fork_cases [OF assms])
    fix q h1 v
    assume inh: "fork_inherit S h cur q now = Some (h1, v)" and h': "h' = fork_finish S h1 q v"
    have "is_protected (h1 q) = is_protected (h q)"
      by (rule is_protected_frame) (rule fork_source.source_frame [OF inh])
    then show ?thesis
      using fork_source.finish_frame [OF inh, of q] ctx_core_eqD(4) [OF fork_source.finish_core(1) [OF inh, of t q]]
      by (cases "t = q") (simp_all add: h', simp add: fork_finish_def Let_def update_penalty_ctx)
  qed simp
  then show "same_task_but_kabi h h'"
    and "is_protected (h t) \<Longrightarrow> penalty (bore_get_ctx h t) = 0 \<Longrightarrow> penalty (bore_get_ctx h' t) = 0"
    by simp_all
qed

lemma update_curr_protected:
  "is_protected (h t) \<Longrightarrow> penalty (bore_get_ctx h t) = 0 \<Longrightarrow>
    penalty (bore_get_ctx (fst (probe_bore_update_curr S h p d np)) t) = 0"
  by (simp add: probe_bore_update_curr_def Let_def split_def update_penalty_ctx split: option.split)

lemma bore_probe_protected:
  assumes "bore_probe S cur now h c = Some (h', out)"
  shows "same_task_but_kabi h h'"
    and "is_protected (h t) \<Longrightarrow> penalty (bore_get_ctx h t) = 0 \<Longrightarrow> penalty (bore_get_ctx h' t) = 0"
proof -
  have "same_task_but_kabi h h' \<and>
    (is_protected (h t) \<longrightarrow> penalty (bore_get_ctx h t) = 0 \<longrightarrow> penalty (bore_get_ctx h' t) = 0)"
  proof (cases c)
    case (Call_update_curr p d np)
    then have "h' = fst (probe_bore_update_curr S h p d np)"
      using assms by simp
    then show ?thesis
      by (simp add: update_curr_frame update_curr_protected)
  qed (use assms in \<open>auto simp: probe_bore_set_next_entity_def probe_bore_init_entity_def
      dest: end_of_burst_protected [OF disjI1] end_of_burst_protected [OF disjI2] fork_protected split: option.splits\<close>)
  then show "same_task_but_kabi h h'"
    and "is_protected (h t) \<Longrightarrow> penalty (bore_get_ctx h t) = 0 \<Longrightarrow> penalty (bore_get_ctx h' t) = 0"
    by simp_all
qed

lemma latency_probe_penalty:
  "same_task_but_kabi h (fst (latency_probe T h c)) \<and>
    penalty (bore_get_ctx (fst (latency_probe T h c)) t) = penalty (bore_get_ctx h t)"
  by (cases c) (auto simp: probe_latency_init_entity_def probe_latency_set_user_nice_def
      update_task_latency_nice_def Let_def latency_put_bore_ctx split: option.split)

lemma hook_calls_protected:
  assumes "hook_calls h h'" and "is_protected (h t)" and "penalty (bore_get_ctx h t) = 0"
  shows "same_task_but_kabi h h' \<and> penalty (bore_get_ctx h' t) = 0"
  using assms
proof (induction rule: hook_calls.induct)
  case (bore_run h h' S cur now c h'' out)
  then have "same_task_but_kabi h h'" "penalty (bore_get_ctx h' t) = 0"
    by simp_all
  then show ?case
    using bore_probe_protected [OF bore_run.hyps(2)] bore_run.prems(1) is_protected_frame
    by (blast intro: same_task_but_kabi_trans)
next
  case (latency_run h h' T lc h'' lout)
  then show ?case
    using latency_probe_penalty [of h' T lc t] by (auto intro: same_task_but_kabi_trans)
qed simp

section \<open>Registration and tables\<close>

lemma bore_init_lut_ready:
  assumes "bore_sched_init reg sysctl_ok proc_ok ts (bore_globals P, h) K = (r, (S, h'), K')"
  shows "lut_ready S" and "h' = init_bore_tasks ts h"
proof -
  obtain r1 S1 K1 where l: "bore_register_all reg sysctl_ok proc_ok (init_bore_reciprocal_lut (bore_globals P)) K = (r1, S1, K1)"
    by (metis prod.collapse)
  then have "S = S1" "h' = init_bore_tasks ts h"
    using assms by (simp_all add: bore_sched_init_def)
  then show "lut_ready S" "h' = init_bore_tasks ts h"
    using bore_register_all_state [OF l]
    by (simp_all add: lut_ready_def init_bore_reciprocal_lut_def bore_globals_def)
qed

lemma latency_init_heap:
  "latency_sched_init reg sysctl_ok proc_ok ts (T, h) L = (r, (T', h'), L') \<Longrightarrow>
    h' = init_latency_tasks (lat_params T) ts h"
  by (simp add: latency_sched_init_def split: prod.splits)

lemma lut_ready_params [simp]: "lut_ready (S\<lparr>params := P\<rparr>) = lut_ready S"
  by (simp add: lut_ready_def)

section \<open>The invariant of the system\<close>

definition sched_inv :: "sched_system \<Rightarrow> bool" where
  "sched_inv s \<longleftrightarrow> heap_ok (sys_heap s) \<and> bore_registered (bore_mod s) (bore_reg s) \<and>
    latency_registered (latency_mod s) (latency_reg s) \<and> (\<forall>S. bore_mod s = Some S \<longrightarrow> lut_ready S)"

lemma bore_registered_trace:
  "bore_registered (Some S) K \<Longrightarrow> trace_android_vh_bore K S cur now h c =
    (if bore_hooks_active S then bore_probe S cur now h c else Some (h, bore_call_out c))"
  by (simp add: trace_android_vh_bore_def bore_registered_def bore_service.trace_loaded)

lemma latency_registered_trace:
  "latency_registered (Some S) K \<Longrightarrow> trace_android_vh_latency K S h c =
    (if latency_hooks_active S then latency_probe S h c else (h, latency_call_out c))"
  by (simp add: trace_android_vh_latency_def latency_registered_def latency_service.trace_loaded)

lemma sched_step_inv:
  assumes "sched_step s s'" and "sched_inv s"
  shows "sched_inv s'"
  using assms
proof (induction rule: sched_step.induct)
  case (insmod_bore s reg sysctl_ok proc_ok ts P S h K)
  then have "bore_reg s = no_reg"
    by (simp add: sched_inv_def bore_registered_def)
  then show ?case
    using insmod_bore bore_init_lut_ready [OF insmod_bore.hyps(2)] heap_ok_init_bore
      bore_service.load_registers [of reg sysctl_ok proc_ok ts "(bore_globals P, sys_heap s)" 0 "(S, h)" K]
    by (simp add: sched_inv_def bore_registered_def)
next
  case (rmmod_bore s S)
  then show ?case
    using bore_service.unload_reg [of "(S, sys_heap s)"] by (simp add: sched_inv_def bore_registered_def)
next
  case (bore_hook s S cur now c h out)
  then show ?case
    using heap_ok_bore_probe [of "sys_heap s" S cur now c h out]
    by (auto simp: sched_inv_def bore_registered_trace split: if_splits)
next
  case (bore_tunable s S v w)
  then show ?case
    by (simp add: sched_inv_def bore_registered_def)
next
  case (insmod_latency s lreg sysctl_ok proc_ok ts Q T h L)
  then have "latency_reg s = no_reg"
    by (simp add: sched_inv_def latency_registered_def)
  then show ?case
    using insmod_latency latency_init_heap [OF insmod_latency.hyps(2)] heap_ok_init_latency
      latency_service.load_registers [of lreg sysctl_ok proc_ok ts "(latency_globals Q, sys_heap s)" 0 "(T, h)" L]
    by (simp add: sched_inv_def latency_registered_def)
next
  case (rmmod_latency s T)
  then show ?case
    using latency_service.unload_reg [of "(T, sys_heap s)"] by (simp add: sched_inv_def latency_registered_def)
next
  case (latency_hook s T lc h lout)
  then show ?case
    using heap_ok_latency_probe [of "sys_heap s" T lc]
    by (auto simp: sched_inv_def latency_registered_trace split: if_splits)
next
  case (latency_tunable s T u x)
  then show ?case
    by (simp add: sched_inv_def latency_registered_def)
next
  case (kernel h s)
  then show ?case
    by (simp add: sched_inv_def heap_ok_def bore_get_ctx_def)
next
  case (duplicate s chld parent)
  then show ?case
    by (simp add: sched_inv_def heap_ok_def bore_get_ctx_def)
qed

lemma sched_reachable_inv: "sched_reachable s \<Longrightarrow> sched_inv s"
proof (induction rule: sched_reachable.induct)
  case (boot h)
  then show ?case
    by (simp add: sched_inv_def heap_ok_def bore_registered_def latency_registered_def)
next
  case (step s s')
  then show ?case by (blast intro: sched_step_inv)
qed

section \<open>An example run\<close>

text \<open>The BORE module loaded into a freshly booted kernel whose hooks are all available.\<close>

definition example_loaded :: bore_state where
  "example_loaded = (init_bore_reciprocal_lut (bore_globals default_bore_params))
    \<lparr>bore_hooks_active := True, bore_sysctl_header := True, bore_proc_entry := True\<rparr>"

definition example_sched :: sched_system where
  "example_sched = \<lparr>sys_heap = example_heap, bore_mod = Some example_loaded,
    bore_reg = module_reg bore_hooks ''kernel'' ''bore'' mode_0444 bore_proc_fops True True True, latency_mod = None, latency_reg = no_reg\<rparr>"

lemma example_sched_reachable: "sched_reachable example_sched"
proof -
  let ?boot = "\<lparr>sys_heap = example_heap, bore_mod = None, bore_reg = no_reg, latency_mod = None, latency_reg = no_reg\<rparr>"
  have "bore_sched_init (\<lambda>_. 0) True True [] (bore_globals default_bore_params, example_heap) no_reg =
    (0, (example_loaded, example_heap), module_reg bore_hooks ''kernel'' ''bore'' mode_0444 bore_proc_fops True True True)"
    by (simp add: bore_sched_init_def bore_register_all_ok init_bore_tasks_def example_loaded_def module_reg_def attached_no_reg)
  then have "sched_step ?boot example_sched"
    using sched_step.insmod_bore [of ?boot] by (simp add: example_sched_def)
  moreover have "sched_reachable ?boot"
    by (rule sched_reachable.boot) simp
  ultimately show ?thesis
    by (rule sched_reachable.step [rotated])
qed

section \<open>Properties\<close>

text \<open>
  C22: loading either module attaches all its hooks or none. Whatever codes the register calls return
  and whether the kernel grants the table and the proc entry, the module loads with result 0; it is
  active exactly when every call succeeded, and then all hooks are attached in order; otherwise no
  hook is added and the scheduler is switched off. Unloading leaves the hooks, tables and proc
  entries from before. In both cases BORE has cleared the context of every task of its loop and of
  no other, and the latency module has classified the tasks of its loop.
\<close>

theorem modules_load_all_or_nothing:
  "(case bore_sched_init reg sysctl_ok proc_ok ts (S, h) K of (r, (S', h'), K') \<Rightarrow>
     r = 0 \<and> bore_hooks_active S' = (\<forall>k. reg k = 0) \<and>
     attached K' = (if bore_hooks_active S' then rev bore_hooks @ attached K else attached K) \<and>
     params S' = (if bore_hooks_active S' then params S else (params S)\<lparr>sched_bore := 0\<rparr>) \<and>
     h' = init_bore_tasks ts h \<and> bore_sched_exit (S', h') K' = K \<and>
     (\<forall>t. bore_get_ctx h' t = (if t \<in> set ts then zero_bore_ctx else bore_get_ctx h t))) \<and>
   (case latency_sched_init lreg sysctl_ok proc_ok ts (T, h) L of (r, (T', h'), L') \<Rightarrow>
     r = 0 \<and> latency_hooks_active T' = (\<forall>k. lreg k = 0) \<and>
     attached L' = (if latency_hooks_active T' then rev latency_hooks @ attached L else attached L) \<and>
     lat_params T' = (if latency_hooks_active T' then lat_params T
       else (lat_params T)\<lparr>sched_latency_nice_enabled := 0\<rparr>) \<and>
     h' = init_latency_tasks (lat_params T) ts h \<and> latency_sched_exit (T', h') L' = L)"
proof (rule conjI [OF _ latency_load_all_or_nothing])
  show "case bore_sched_init reg sysctl_ok proc_ok ts (S, h) K of (r, (S', h'), K') \<Rightarrow>
     r = 0 \<and> bore_hooks_active S' = (\<forall>k. reg k = 0) \<and>
     attached K' = (if bore_hooks_active S' then rev bore_hooks @ attached K else attached K) \<and>
     params S' = (if bore_hooks_active S' then params S else (params S)\<lparr>sched_bore := 0\<rparr>) \<and>
     h' = init_bore_tasks ts h \<and> bore_sched_exit (S', h') K' = K \<and>
     (\<forall>t. bore_get_ctx h' t = (if t \<in> set ts then zero_bore_ctx else bore_get_ctx h t))"
    using bore_load_all_or_nothing [where reg = reg and sysctl_ok = sysctl_ok and proc_ok = proc_ok and ts = ts and S = S and h = h and K = K]
    by (auto simp: init_bore_tasks_ctx split: prod.splits)
qed

text \<open>
  C4: with both modules in one kernel, loaded and unloaded in any order, every interleaving of hook
  calls, tunable writes and task creation keeps all penalties within the bound: those of every task
  and those cached for its children and threads, and the score is at most 39. The run time, which
  the latency module overwrites, is the one field the bound does not need.
\<close>

theorem system_penalties_bounded:
  assumes "sched_reachable s"
  shows "ctx_ok (bore_get_ctx (sys_heap s) t) \<and> unat (bore_score (bore_get_ctx (sys_heap s) t)) \<le> 39"
  using sched_reachable_inv [OF assms] heap_okD [of "sys_heap s" t] bore_score_le(2)
  by (auto simp: sched_inv_def ctx_ok_def)

theorem system_penalties_bounded_witness:
  "ctx_ok (bore_get_ctx (fst (probe_bore_update_curr example_loaded example_heap (Some 1) 900000000 None)) 1)"
proof -
  let ?h = "fst (probe_bore_update_curr example_loaded example_heap (Some 1) 900000000 None)"
  have "trace_android_vh_bore (bore_reg example_sched) example_loaded None 0 (sys_heap example_sched)
      (Call_update_curr (Some 1) 900000000 None) = Some (?h, snd (probe_bore_update_curr example_loaded example_heap (Some 1) 900000000 None))"
    by (simp add: trace_android_vh_bore_def example_sched_def bore_service.trace_loaded)
  from sched_step.bore_hook [OF _ this] have "sched_step example_sched (example_sched\<lparr>sys_heap := ?h\<rparr>)"
    by (simp add: example_sched_def)
  with example_sched_reachable have "sched_reachable (example_sched\<lparr>sys_heap := ?h\<rparr>)"
    by (rule sched_reachable.step)
  from system_penalties_bounded [OF this, of 1] show ?thesis by simp
qed

text \<open>
  C13: probes run exactly while their module is loaded and active. On every reachable state a hook
  has a probe attached iff its module is loaded and all its hooks were registered; a module that is
  not loaded has no hook, table or proc entry left. So a call into a module in no-op mode leaves the
  tasks and the caller's argument alone, and a call into an active one is the probe.
\<close>

theorem hooks_run_iff_active:
  assumes "sched_reachable s"
  shows "(k \<in> set (attached (bore_reg s)) \<longleftrightarrow> (\<exists>S. bore_mod s = Some S \<and> bore_hooks_active S)) \<and>
    (l \<in> set (attached (latency_reg s)) \<longleftrightarrow> (\<exists>T. latency_mod s = Some T \<and> latency_hooks_active T)) \<and>
    (case bore_mod s of
       None \<Rightarrow> bore_reg s = no_reg
     | Some S \<Rightarrow> trace_android_vh_bore (bore_reg s) S cur now h c =
         (if bore_hooks_active S then bore_probe S cur now h c else Some (h, bore_call_out c))) \<and>
    (case latency_mod s of
       None \<Rightarrow> latency_reg s = no_reg
     | Some T \<Rightarrow> trace_android_vh_latency (latency_reg s) T h lc =
         (if latency_hooks_active T then latency_probe T h lc else (h, latency_call_out lc)))"
proof (intro conjI)
  have inv: "bore_registered (bore_mod s) (bore_reg s)" "latency_registered (latency_mod s) (latency_reg s)"
    using sched_reachable_inv [OF assms] by (simp_all add: sched_inv_def)
  show "k \<in> set (attached (bore_reg s)) \<longleftrightarrow> (\<exists>S. bore_mod s = Some S \<and> bore_hooks_active S)"
    using inv(1) by (cases "bore_mod s") (auto simp: bore_registered_def bore_service.attached_iff attached_no_reg)
  show "l \<in> set (attached (latency_reg s)) \<longleftrightarrow> (\<exists>T. latency_mod s = Some T \<and> latency_hooks_active T)"
    using inv(2) by (cases "latency_mod s") (auto simp: latency_registered_def latency_service.attached_iff attached_no_reg)
  show "case bore_mod s of None \<Rightarrow> bore_reg s = no_reg
     | Some S \<Rightarrow> trace_android_vh_bore (bore_reg s) S cur now h c =
         (if bore_hooks_active S then bore_probe S cur now h c else Some (h, bore_call_out c))"
    using inv(1) bore_registered_trace by (cases "bore_mod s") (simp_all add: bore_registered_def)
  show "case latency_mod s of None \<Rightarrow> latency_reg s = no_reg
     | Some T \<Rightarrow> trace_android_vh_latency (latency_reg s) T h lc =
         (if latency_hooks_active T then latency_probe T h lc else (h, latency_call_out lc))"
    using inv(2) latency_registered_trace by (cases "latency_mod s") (simp_all add: latency_registered_def)
qed

theorem hooks_run_iff_active_witness:
  "trace_android_vh_bore (bore_reg example_sched) example_loaded None 0 example_heap
      (Call_set_load_weight (Some 1) (Some 120)) = Some (example_heap, Some 20) \<and>
   latency_reg example_sched = no_reg"
proof -
  have "probe_bore_set_load_weight example_loaded example_heap (Some 1) (Some 120) = Some 20"
    by code_simp
  then show ?thesis
    using hooks_run_iff_active [OF example_sched_reachable, of Bore_task_fork Latency_tick_offset None 0 example_heap
        "Call_set_load_weight (Some 1) (Some 120)"]
    by (simp add: example_sched_def example_loaded_def)
qed

end
