(* ===== verification/Dragonite_Core.thy ===== *)
theory Dragonite_Core
  imports Kernel_Tasks
begin

text \<open>
  The AxDragonite driver (\<^verbatim>\<open>ax_dragonite.h\<close>, \<^verbatim>\<open>ax_dragonite_main.c\<close>): pinning the named threads
  of a process to a set of CPUs, undoing it, boosting a thread group and pinning the kernel's
  swap threads.

  The state \<open>axd_kern\<close> holds the task heap with the reference counts the driver takes and drops,
  the nesting depth of RCU read sections, the number of live allocations and the driver's counters.
  Kernel functions the driver calls are fields of \<open>axd_env\<close>. A result \<^const>\<open>None\<close> stands for a
  store outside an array. Every operation is shown to be what a specification without loops, locks
  and reference counts says, so all three are balanced on every path.
\<close>

section \<open>Definitions\<close>

type_synonym cpumask = u64

definition AX_COMM_LEN :: nat where "AX_COMM_LEN = 16"
definition AXD_MAX_THREAD_GROUP_TASKS :: nat where "AXD_MAX_THREAD_GROUP_TASKS = 512"
definition AXD_MAX_KSWAPD_TASKS :: nat where "AXD_MAX_KSWAPD_TASKS = 32"
definition AXD_NICE_BOOST :: s32 where "AXD_NICE_BOOST = - 20"
definition AXD_NICE_NORMAL :: s32 where "AXD_NICE_NORMAL = 0"
definition AXD_KSWAPD_COMM_PREFIX :: string where "AXD_KSWAPD_COMM_PREFIX = ''kswapd''"
definition AXD_KSWAPD_COMM_LEN :: nat where "AXD_KSWAPD_COMM_LEN = 6"
definition AXD_MATCH_ALL_COMM :: char where "AXD_MATCH_ALL_COMM = CHR ''*''"
definition AXD_INVALID_PID :: int where "AXD_INVALID_PID = 0"

lemmas axd_consts = AX_COMM_LEN_def AXD_MAX_THREAD_GROUP_TASKS_def AXD_MAX_KSWAPD_TASKS_def
  AXD_NICE_BOOST_def AXD_NICE_NORMAL_def AXD_KSWAPD_COMM_PREFIX_def AXD_KSWAPD_COMM_LEN_def
  AXD_MATCH_ALL_COMM_def AXD_INVALID_PID_def

record axd_stats =
  affinity_set_count :: s64
  boost_set_count :: s64
  reset_count :: s64
  kswapd_pin_count :: s64

record axd_kern =
  tasks :: heap
  rcu_nesting :: int
  live_allocs :: int
  g_axd_stats :: axd_stats

text \<open>
  The kernel around the driver: the pid table, whether an allocation of so many bytes succeeds,
  the CPU masks (one word, as \<open>nr_cpu_ids\<close> is at most 64), the process list, and the two functions
  that change a task.
\<close>

record axd_env =
  find_task_by_vpid :: "s32 \<Rightarrow> task option"
  kmalloc_ok :: "nat \<Rightarrow> bool"
  cpu_online_mask :: cpumask
  cpu_possible_mask :: cpumask
  processes :: "task list"
  set_cpus_allowed_ptr :: "heap \<Rightarrow> task \<Rightarrow> cpumask \<Rightarrow> s32 \<times> heap"
  set_user_nice :: "heap \<Rightarrow> task \<Rightarrow> s32 \<Rightarrow> heap"

definition get_task_struct :: "task \<Rightarrow> axd_kern \<Rightarrow> axd_kern" where
  "get_task_struct t s = s\<lparr>tasks := (tasks s)(t := (tasks s t)\<lparr>usage := usage (tasks s t) + 1\<rparr>)\<rparr>"

definition put_task_struct :: "task \<Rightarrow> axd_kern \<Rightarrow> axd_kern" where
  "put_task_struct t s = s\<lparr>tasks := (tasks s)(t := (tasks s t)\<lparr>usage := usage (tasks s t) - 1\<rparr>)\<rparr>"

definition rcu_read_lock :: "axd_kern \<Rightarrow> axd_kern" where
  "rcu_read_lock s = s\<lparr>rcu_nesting := rcu_nesting s + 1\<rparr>"

definition rcu_read_unlock :: "axd_kern \<Rightarrow> axd_kern" where
  "rcu_read_unlock s = s\<lparr>rcu_nesting := rcu_nesting s - 1\<rparr>"

definition kmalloc :: "axd_kern \<Rightarrow> axd_kern" where
  "kmalloc s = s\<lparr>live_allocs := live_allocs s + 1\<rparr>"

definition kfree :: "axd_kern \<Rightarrow> axd_kern" where
  "kfree s = s\<lparr>live_allocs := live_allocs s - 1\<rparr>"

definition cpumask_empty :: "cpumask \<Rightarrow> bool" where
  "cpumask_empty m \<longleftrightarrow> m = 0"

definition cpumask_intersects :: "cpumask \<Rightarrow> cpumask \<Rightarrow> bool" where
  "cpumask_intersects a b \<longleftrightarrow> a AND b \<noteq> 0"

definition axd_comm_matches :: "string \<Rightarrow> string \<Rightarrow> bool" where
  "axd_comm_matches task_comm comm_name =
    (if comm_name = [AXD_MATCH_ALL_COMM] then True
     else strncmp task_comm comm_name AX_COMM_LEN = 0)"

text \<open>
  The loops that collect tasks into an array of \<open>slots\<close> slots under the RCU lock, taking a
  reference to each, and stop at \<open>limit\<close>; \<open>keep\<close> is the test on the task's name.
\<close>

fun collect_tasks ::
  "nat \<Rightarrow> nat \<Rightarrow> (string \<Rightarrow> bool) \<Rightarrow> task list \<Rightarrow> task list \<Rightarrow> axd_kern \<Rightarrow> (task list \<times> axd_kern) option" where
  "collect_tasks limit slots keep [] arr s = Some (arr, s)"
| "collect_tasks limit slots keep (t # ts) arr s =
    (if \<not> keep (comm (tasks s t)) then collect_tasks limit slots keep ts arr s
     else if length arr \<ge> limit then Some (arr, s)
     else if length arr \<ge> slots then None
     else collect_tasks limit slots keep ts (arr @ [t]) (get_task_struct t s))"

text \<open>The loops that set the mask of each collected task, count successes and drop the reference.\<close>

fun apply_mask :: "axd_env \<Rightarrow> cpumask \<Rightarrow> task list \<Rightarrow> nat \<Rightarrow> axd_kern \<Rightarrow> nat \<times> axd_kern" where
  "apply_mask E m [] n s = (n, s)"
| "apply_mask E m (t # ts) n s =
    (let (r, h) = set_cpus_allowed_ptr E (tasks s) t m;
         n' = (if r = 0 then n + 1 else n)
     in apply_mask E m ts n' (put_task_struct t (s\<lparr>tasks := h\<rparr>)))"

text \<open>\<open>find_task_by_vpid\<close> with the tests for a usable thread group.\<close>

definition lookup_group :: "axd_env \<Rightarrow> s32 \<Rightarrow> axd_kern \<Rightarrow> task option" where
  "lookup_group E pid s =
    (case find_task_by_vpid E pid of
       None \<Rightarrow> None
     | Some task \<Rightarrow>
         if signal (tasks s task) = None \<or> flags (tasks s task) AND PF_EXITING \<noteq> 0 then None else Some task)"

definition inc_affinity_set :: "axd_kern \<Rightarrow> axd_kern" where
  "inc_affinity_set s = s\<lparr>g_axd_stats := (g_axd_stats s)\<lparr>affinity_set_count := affinity_set_count (g_axd_stats s) + 1\<rparr>\<rparr>"

definition inc_reset :: "axd_kern \<Rightarrow> axd_kern" where
  "inc_reset s = s\<lparr>g_axd_stats := (g_axd_stats s)\<lparr>reset_count := reset_count (g_axd_stats s) + 1\<rparr>\<rparr>"

definition inc_boost_set :: "axd_kern \<Rightarrow> axd_kern" where
  "inc_boost_set s = s\<lparr>g_axd_stats := (g_axd_stats s)\<lparr>boost_set_count := boost_set_count (g_axd_stats s) + 1\<rparr>\<rparr>"

definition inc_kswapd_pin :: "axd_kern \<Rightarrow> axd_kern" where
  "inc_kswapd_pin s = s\<lparr>g_axd_stats := (g_axd_stats s)\<lparr>kswapd_pin_count := kswapd_pin_count (g_axd_stats s) + 1\<rparr>\<rparr>"

type_synonym axd_result = "((errno + unit) \<times> axd_kern) option"

definition axd_set_affinity ::
  "axd_env \<Rightarrow> s32 \<Rightarrow> string option \<Rightarrow> cpumask option \<Rightarrow> axd_kern \<Rightarrow> axd_result" where
  "axd_set_affinity E pid comm_name maskp s =
    (case (comm_name, maskp) of
       (Some cn, Some m) \<Rightarrow>
         if sint pid \<le> AXD_INVALID_PID \<or> cpumask_empty m \<or> \<not> cpumask_intersects m (cpu_online_mask E)
         then Some (Inl EINVAL, s)
         else if \<not> kmalloc_ok E (AXD_MAX_THREAD_GROUP_TASKS * 8) then Some (Inl ENOMEM, s)
         else
           let s = rcu_read_lock (kmalloc s) in
           (case lookup_group E pid s of
              None \<Rightarrow> Some (Inl ESRCH, kfree (rcu_read_unlock s))
            | Some task \<Rightarrow>
                do {
                  let s = get_task_struct task s;
                  (threads, s) \<leftarrow> collect_tasks AXD_MAX_THREAD_GROUP_TASKS AXD_MAX_THREAD_GROUP_TASKS
                    (\<lambda>c. axd_comm_matches c cn) (threads_of (tasks s) task) [] s;
                  let (matched, s) = apply_mask E m threads 0 (rcu_read_unlock s);
                  let s = put_task_struct task (kfree s);
                  let s = (if matched > 0 then inc_affinity_set s else s);
                  Some (if matched > 0 then Inr () else if length threads > 0 then Inl EINVAL else Inl ENOENT, s)
                })
     | _ \<Rightarrow> Some (Inl EINVAL, s))"

definition axd_reset_affinity :: "axd_env \<Rightarrow> s32 \<Rightarrow> axd_kern \<Rightarrow> axd_result" where
  "axd_reset_affinity E pid s =
    (if sint pid \<le> AXD_INVALID_PID then Some (Inl EINVAL, s)
     else if \<not> kmalloc_ok E (AXD_MAX_THREAD_GROUP_TASKS * 8) then Some (Inl ENOMEM, s)
     else
       let s = rcu_read_lock (kmalloc s) in
       (case lookup_group E pid s of
          None \<Rightarrow> Some (Inl ESRCH, kfree (rcu_read_unlock s))
        | Some task \<Rightarrow>
            do {
              let s = get_task_struct task s;
              (threads, s) \<leftarrow> collect_tasks AXD_MAX_THREAD_GROUP_TASKS AXD_MAX_THREAD_GROUP_TASKS
                (\<lambda>_. True) (threads_of (tasks s) task) [] s;
              let (n, s) = apply_mask E (cpu_possible_mask E) threads 0 (rcu_read_unlock s);
              let s = put_task_struct task (kfree s);
              let s = (if n > 0 then inc_reset s else s);
              Some (if n > 0 then Inr () else Inl ESRCH, s)
            }))"

definition axd_set_boost :: "axd_env \<Rightarrow> s32 \<Rightarrow> s32 \<Rightarrow> axd_kern \<Rightarrow> axd_result" where
  "axd_set_boost E pid boost_level s =
    (if sint pid \<le> AXD_INVALID_PID then Some (Inl EINVAL, s)
     else
       let target_nice = (if sint boost_level > 0 then AXD_NICE_BOOST else AXD_NICE_NORMAL);
           s = rcu_read_lock s in
       (case lookup_group E pid s of
          None \<Rightarrow> Some (Inl ESRCH, rcu_read_unlock s)
        | Some task \<Rightarrow>
            let h = foldl (\<lambda>h t. set_user_nice E h t target_nice) (tasks s) (threads_of (tasks s) task)
            in Some (Inr (), inc_boost_set (rcu_read_unlock (s\<lparr>tasks := h\<rparr>)))))"

definition axd_pin_kswapd :: "axd_env \<Rightarrow> cpumask option \<Rightarrow> axd_kern \<Rightarrow> axd_result" where
  "axd_pin_kswapd E maskp s =
    (case maskp of
       None \<Rightarrow> Some (Inl EINVAL, s)
     | Some m \<Rightarrow>
         if cpumask_empty m \<or> \<not> cpumask_intersects m (cpu_online_mask E) then Some (Inl EINVAL, s)
         else
           do {
             let s = rcu_read_lock s;
             (kswapd_tasks, s) \<leftarrow> collect_tasks AXD_MAX_KSWAPD_TASKS AXD_MAX_KSWAPD_TASKS
               (\<lambda>c. strncmp c AXD_KSWAPD_COMM_PREFIX AXD_KSWAPD_COMM_LEN = 0) (processes E) [] s;
             let (pinned, s) = apply_mask E m kswapd_tasks 0 (rcu_read_unlock s);
             let s = (if pinned > 0 then inc_kswapd_pin s else s);
             Some (if pinned > 0 then Inr () else Inl ESRCH, s)
           })"

text \<open>
  Contracts of the two kernel functions that change a task. Setting the CPU mask accepts or refuses
  depending on the task's flags and the mask; it returns 0 and stores the mask, or returns another
  code and changes nothing. Setting a nice value within -20 and 19 stores the static priority and
  may change the task's vendor-reserved words (the scheduler modules hook it), nothing else.
\<close>

definition affinity_contract :: "(u32 \<Rightarrow> cpumask \<Rightarrow> bool) \<Rightarrow> axd_env \<Rightarrow> bool" where
  "affinity_contract accepts E \<longleftrightarrow> (\<forall>h t m.
    (fst (set_cpus_allowed_ptr E h t m) = 0 \<longleftrightarrow> accepts (flags (h t)) m) \<and>
    snd (set_cpus_allowed_ptr E h t m) = (if accepts (flags (h t)) m then h(t := (h t)\<lparr>cpus_mask := m\<rparr>) else h))"

definition nice_contract :: "axd_env \<Rightarrow> bool" where
  "nice_contract E \<longleftrightarrow> (\<forall>h t n. - 20 \<le> sint n \<and> sint n \<le> 19 \<longrightarrow>
    (\<exists>k. set_user_nice E h t n = h(t := (h t)\<lparr>static_prio := 120 + n, kabi_area := k\<rparr>)))"

text \<open>The specification: the tasks selected, those that accept the mask, and the pinned heap.\<close>

definition named_threads :: "axd_kern \<Rightarrow> task \<Rightarrow> string \<Rightarrow> task list" where
  "named_threads s task cn =
    take 512 (filter (\<lambda>t. axd_comm_matches (comm (tasks s t)) cn) (threads_of (tasks s) task))"

definition kswapd_threads :: "axd_env \<Rightarrow> axd_kern \<Rightarrow> task list" where
  "kswapd_threads E s = take 32 (filter (\<lambda>t. take 6 (comm (tasks s t)) = ''kswapd'') (processes E))"

definition willing :: "(u32 \<Rightarrow> cpumask \<Rightarrow> bool) \<Rightarrow> cpumask \<Rightarrow> axd_kern \<Rightarrow> task list \<Rightarrow> task list" where
  "willing accepts m s ts = filter (\<lambda>t. accepts (flags (tasks s t)) m) ts"

definition pin :: "task list \<Rightarrow> cpumask \<Rightarrow> axd_kern \<Rightarrow> axd_kern" where
  "pin ts m s = s\<lparr>tasks := (\<lambda>t. if t \<in> set ts then (tasks s t)\<lparr>cpus_mask := m\<rparr> else tasks s t)\<rparr>"

text \<open>Tasks of a list given a static priority; their reserved words may change with it.\<close>

definition reniced :: "task list \<Rightarrow> s32 \<Rightarrow> heap \<Rightarrow> heap \<Rightarrow> bool" where
  "reniced ts p h h' \<longleftrightarrow> (\<exists>K. h' =
    (\<lambda>t. if t \<in> set ts then (h t)\<lparr>static_prio := p, kabi_area := K t\<rparr> else h t))"

text \<open>Changing the reference counts of all tasks at once.\<close>

definition bump :: "(task \<Rightarrow> int) \<Rightarrow> axd_kern \<Rightarrow> axd_kern" where
  "bump f s = s\<lparr>tasks := (\<lambda>t. (tasks s t)\<lparr>usage := usage (tasks s t) + f t\<rparr>)\<rparr>"

definition kernel_contract :: "(u32 \<Rightarrow> cpumask \<Rightarrow> bool) \<Rightarrow> axd_env \<Rightarrow> bool" where
  "kernel_contract accepts E \<longleftrightarrow> affinity_contract accepts E \<and> nice_contract E"

text \<open>Locks, allocations and reference counts as before.\<close>

definition balanced :: "axd_kern \<Rightarrow> axd_kern \<Rightarrow> bool" where
  "balanced s s' \<longleftrightarrow> rcu_nesting s' = rcu_nesting s \<and> live_allocs s' = live_allocs s \<and>
    (\<forall>t. usage (tasks s' t) = usage (tasks s t))"

text \<open>The four calls of the driver's interface, and a run of several of them.\<close>

datatype axd_call =
    Set_affinity s32 "string option" "cpumask option" | Reset_affinity s32 | Set_boost s32 s32
  | Pin_kswapd "cpumask option"

fun axd_exec :: "axd_env \<Rightarrow> axd_call \<Rightarrow> axd_kern \<Rightarrow> axd_result" where
  "axd_exec E (Set_affinity pid cn m) = axd_set_affinity E pid cn m"
| "axd_exec E (Reset_affinity pid) = axd_reset_affinity E pid"
| "axd_exec E (Set_boost pid lvl) = axd_set_boost E pid lvl"
| "axd_exec E (Pin_kswapd m) = axd_pin_kswapd E m"

fun axd_run :: "axd_env \<Rightarrow> axd_call list \<Rightarrow> axd_kern \<Rightarrow> ((errno + unit) list \<times> axd_kern) option" where
  "axd_run E [] s = Some ([], s)"
| "axd_run E (c # cs) s = do {(r, s) \<leftarrow> axd_exec E c s; (rs, s) \<leftarrow> axd_run E cs s; Some (r # rs, s)}"

text \<open>The successful calls of a kind.\<close>

definition successes :: "(axd_call \<Rightarrow> bool) \<Rightarrow> axd_call list \<Rightarrow> (errno + unit) list \<Rightarrow> nat" where
  "successes kind cs rs = length (filter (\<lambda>(c, r). kind c \<and> r = Inr ()) (zip cs rs))"

fun is_set_affinity :: "axd_call \<Rightarrow> bool" where
  "is_set_affinity (Set_affinity _ _ _) = True" | "is_set_affinity _ = False"
fun is_reset :: "axd_call \<Rightarrow> bool" where
  "is_reset (Reset_affinity _) = True" | "is_reset _ = False"
fun is_boost :: "axd_call \<Rightarrow> bool" where
  "is_boost (Set_boost _ _) = True" | "is_boost _ = False"
fun is_kswapd :: "axd_call \<Rightarrow> bool" where
  "is_kswapd (Pin_kswapd _) = True" | "is_kswapd _ = False"

section \<open>Reference counts, locks and allocations\<close>

lemma get_task_struct_bump: "get_task_struct t = bump (\<lambda>x. of_bool (x = t))"
  by (rule ext) (simp add: get_task_struct_def bump_def fun_eq_iff)

lemma put_task_struct_bump: "put_task_struct t = bump (\<lambda>x. - of_bool (x = t))"
  by (rule ext) (simp add: put_task_struct_def bump_def fun_eq_iff)

lemma bump_bump [simp]: "bump f (bump g s) = bump (\<lambda>t. g t + f t) s"
  by (simp add: bump_def add.assoc)

lemma bump_zero [simp]: "bump (\<lambda>t. 0) s = s"
  by (simp add: bump_def)

lemma bump_pin: "bump f (pin ts m s) = pin ts m (bump f s)"
  by (simp add: bump_def pin_def fun_eq_iff)

lemma pin_Nil [simp]: "pin [] m s = s"
  by (simp add: pin_def)

lemma pin_pin [simp]: "pin ts m (pin us m s) = pin (us @ ts) m s"
  by (auto simp: pin_def fun_eq_iff)

lemma bump_fields [simp]:
  "comm (tasks (bump f s) t) = comm (tasks s t)" "flags (tasks (bump f s) t) = flags (tasks s t)"
  "signal (tasks (bump f s) t) = signal (tasks s t)" "threads_of (tasks (bump f s)) t = threads_of (tasks s) t"
  by (simp_all add: bump_def threads_of_def)

lemma pin_fields [simp]:
  "comm (tasks (pin ts m s) t) = comm (tasks s t)" "flags (tasks (pin ts m s) t) = flags (tasks s t)"
  by (simp_all add: pin_def)

lemma lock_commute [simp]:
  "tasks (rcu_read_lock s) = tasks s" "tasks (kmalloc s) = tasks s"
  "rcu_read_unlock (bump f s) = bump f (rcu_read_unlock s)" "kfree (bump f s) = bump f (kfree s)"
  "rcu_read_unlock (pin ts m s) = pin ts m (rcu_read_unlock s)" "kfree (pin ts m s) = pin ts m (kfree s)"
  "rcu_read_unlock (rcu_read_lock s) = s" "kfree (kmalloc s) = s" "tasks (rcu_read_unlock s) = tasks s"
  by (simp_all add: rcu_read_lock_def rcu_read_unlock_def kmalloc_def kfree_def bump_def pin_def cong: if_cong)

lemma lookup_group_state [simp]:
  "lookup_group E pid (rcu_read_lock s) = lookup_group E pid s"
  "lookup_group E pid (kmalloc s) = lookup_group E pid s"
  by (simp_all add: lookup_group_def cong: option.case_cong)

lemma collect_tasks_take:
  assumes "length arr \<le> limit" and "limit \<le> slots"
  shows "collect_tasks limit slots keep ts arr s =
    (let sel = take (limit - length arr) (filter (\<lambda>t. keep (comm (tasks s t))) ts)
     in Some (arr @ sel, bump (\<lambda>t. int (count_list sel t)) s))"
  using assms
proof (induction ts arbitrary: arr s)
  case Nil
  then show ?case by simp
next
  case (Cons t ts)
  show ?case
  proof (cases "keep (comm (tasks s t)) \<and> length arr < limit")
    case True
    then have "limit - length arr = Suc (limit - Suc (length arr))"
      by linarith
    then show ?thesis
      using True Cons.prems Cons.IH [of "arr @ [t]" "get_task_struct t s"]
      by (auto simp: Let_def get_task_struct_bump intro!: arg_cong [of _ _ "\<lambda>f. bump f s"])
  next
    case False
    then show ?thesis
      using Cons by (auto simp: Let_def)
  qed
qed

lemma apply_mask_pins:
  assumes "affinity_contract accepts E"
  shows "apply_mask E m ts n s =
    (n + length (willing accepts m s ts),
     bump (\<lambda>t. - int (count_list ts t)) (pin (willing accepts m s ts) m s))"
proof (induction ts arbitrary: n s)
  case Nil
  then show ?case by (simp add: willing_def)
next
  case (Cons t ts)
  obtain r h where rh: "set_cpus_allowed_ptr E (tasks s) t m = (r, h)"
    by fastforce
  let ?ok = "accepts (flags (tasks s t)) m"
  have r: "r = 0 \<longleftrightarrow> ?ok" and h: "s\<lparr>tasks := h\<rparr> = pin (if ?ok then [t] else []) m s"
    using assms [unfolded affinity_contract_def, rule_format, of "tasks s" t m] rh
    by (auto simp: pin_def fun_eq_iff)
  let ?s = "put_task_struct t (s\<lparr>tasks := h\<rparr>)"
  have same: "willing accepts m ?s ts = willing accepts m s ts"
    by (simp add: willing_def h put_task_struct_bump)
  have "pin (willing accepts m s ts) m ?s =
      bump (\<lambda>x. - of_bool (x = t)) (pin (willing accepts m s (t # ts)) m s)"
    by (simp add: h put_task_struct_bump bump_pin [symmetric] willing_def)
  moreover have "(\<lambda>x. - of_bool (x = t) + - int (count_list ts x)) = (\<lambda>x. - int (count_list (t # ts) x))"
    by (simp add: fun_eq_iff)
  moreover have "length (willing accepts m s (t # ts)) = of_bool ?ok + length (willing accepts m s ts)"
    by (simp add: willing_def)
  ultimately show ?case
    using Cons.IH [of "if r = 0 then n + 1 else n" ?s] by (simp add: rh same r)
qed

lemma willing_state [simp]:
  "willing accepts m (bump f s) = willing accepts m s"
  "willing accepts m (rcu_read_lock s) = willing accepts m s"
  "willing accepts m (rcu_read_unlock s) = willing accepts m s"
  "willing accepts m (kmalloc s) = willing accepts m s"
  by (simp_all add: willing_def fun_eq_iff)

lemma axd_comm_matches_eq:
  assumes "NUL \<notin> set tc" and "NUL \<notin> set cn" and "length tc < 16"
  shows "axd_comm_matches tc cn \<longleftrightarrow> cn = ''*'' \<or> tc = cn"
proof -
  have "take 16 tc = take 16 cn \<longleftrightarrow> tc = cn"
    using assms(3) by (metis leI length_take min.absorb2 min_less_iff_conj nat_less_le take_all)
  then show ?thesis
    using assms by (simp add: axd_comm_matches_def strncmp_eq_0 axd_consts)
qed

lemma mask_guard: "cpumask_empty m \<or> \<not> cpumask_intersects m o' \<longleftrightarrow> m AND o' = 0"
  by (auto simp: cpumask_empty_def cpumask_intersects_def)

lemma set_affinity_exact:
  assumes "affinity_contract accepts E"
  shows "axd_set_affinity E pid (Some cn) (Some m) s =
    Some (if sint pid \<le> 0 \<or> m AND cpu_online_mask E = 0 then (Inl EINVAL, s)
      else if \<not> kmalloc_ok E 4096 then (Inl ENOMEM, s)
      else case lookup_group E pid s of
        None \<Rightarrow> (Inl ESRCH, s)
      | Some task \<Rightarrow>
          let sel = named_threads s task cn; ok = willing accepts m s sel
          in if ok \<noteq> [] then (Inr (), inc_affinity_set (pin ok m s))
             else (if sel = [] then Inl ENOENT else Inl EINVAL, s))"
  by (simp add: axd_set_affinity_def mask_guard axd_consts collect_tasks_take apply_mask_pins [OF assms]
      get_task_struct_bump put_task_struct_bump bump_pin named_threads_def Let_def split: option.split)

lemma reset_affinity_exact:
  assumes "affinity_contract accepts E"
  shows "axd_reset_affinity E pid s =
    Some (if sint pid \<le> 0 then (Inl EINVAL, s)
      else if \<not> kmalloc_ok E 4096 then (Inl ENOMEM, s)
      else case lookup_group E pid s of
        None \<Rightarrow> (Inl ESRCH, s)
      | Some task \<Rightarrow>
          let ok = willing accepts (cpu_possible_mask E) s (take 512 (threads_of (tasks s) task))
          in if ok \<noteq> [] then (Inr (), inc_reset (pin ok (cpu_possible_mask E) s)) else (Inl ESRCH, s))"
  by (simp add: axd_reset_affinity_def axd_consts collect_tasks_take apply_mask_pins [OF assms]
      get_task_struct_bump put_task_struct_bump bump_pin Let_def split: option.split)

lemma pin_kswapd_gen:
  assumes "affinity_contract accepts E"
  shows "axd_pin_kswapd E (Some m) s =
    Some (if m AND cpu_online_mask E = 0 then (Inl EINVAL, s)
      else let ok = willing accepts m s
             (take 32 (filter (\<lambda>t. strncmp (comm (tasks s t)) ''kswapd'' 6 = 0) (processes E)))
        in if ok \<noteq> [] then (Inr (), inc_kswapd_pin (pin ok m s)) else (Inl ESRCH, s))"
  by (simp add: axd_pin_kswapd_def mask_guard axd_consts collect_tasks_take apply_mask_pins [OF assms]
      bump_pin Let_def)

lemma pin_kswapd_exact:
  assumes "affinity_contract accepts E" and "\<forall>t. NUL \<notin> set (comm (tasks s t))"
  shows "axd_pin_kswapd E (Some m) s =
    Some (if m AND cpu_online_mask E = 0 then (Inl EINVAL, s)
      else let ok = willing accepts m s (kswapd_threads E s)
        in if ok \<noteq> [] then (Inr (), inc_kswapd_pin (pin ok m s)) else (Inl ESRCH, s))"
proof -
  have "strncmp (comm (tasks s t)) ''kswapd'' 6 = 0 \<longleftrightarrow> take 6 (comm (tasks s t)) = ''kswapd''" for t
    using assms(2) by (subst strncmp_eq_0) (auto simp: NUL_def)
  then show ?thesis
    by (simp add: pin_kswapd_gen [OF assms(1)] kswapd_threads_def)
qed

lemma reniced_Cons:
  assumes "reniced ts p (h(t := (h t)\<lparr>static_prio := p, kabi_area := k\<rparr>)) h'"
  shows "reniced (t # ts) p h h'"
proof -
  obtain K where "h' = (\<lambda>x. let g = (h(t := (h t)\<lparr>static_prio := p, kabi_area := k\<rparr>)) x
      in if x \<in> set ts then g\<lparr>static_prio := p, kabi_area := K x\<rparr> else g)"
    using assms unfolding reniced_def Let_def by blast
  then have "h' = (\<lambda>x. if x \<in> set (t # ts)
      then (h x)\<lparr>static_prio := p, kabi_area := (if x \<in> set ts then K x else k)\<rparr> else h x)"
    by (auto simp: fun_eq_iff Let_def)
  then show ?thesis
    unfolding reniced_def by (rule exI [where x = "\<lambda>x. if x \<in> set ts then K x else k"])
qed

lemma renice_all:
  assumes "nice_contract E" and "- 20 \<le> sint n" and "sint n \<le> 19"
  shows "reniced ts (120 + n) h (foldl (\<lambda>h t. set_user_nice E h t n) h ts)"
proof (induction ts arbitrary: h)
  case Nil
  then show ?case by (simp add: reniced_def)
next
  case (Cons t ts)
  obtain k where k: "set_user_nice E h t n = h(t := (h t)\<lparr>static_prio := 120 + n, kabi_area := k\<rparr>)"
    using assms unfolding nice_contract_def by blast
  have "reniced ts (120 + n) (set_user_nice E h t n) (foldl (\<lambda>h t. set_user_nice E h t n) (set_user_nice E h t n) ts)"
    by (rule Cons)
  then show ?case
    unfolding foldl_Cons k by (rule reniced_Cons)
qed

lemma set_boost_exact:
  assumes "nice_contract E"
  shows "\<exists>r s'. axd_set_boost E pid lvl s = Some (r, s') \<and>
    (if sint pid \<le> 0 then r = Inl EINVAL \<and> s' = s
     else case lookup_group E pid s of
       None \<Rightarrow> r = Inl ESRCH \<and> s' = s
     | Some task \<Rightarrow> r = Inr () \<and> s' = (inc_boost_set s)\<lparr>tasks := tasks s'\<rparr> \<and>
         reniced (threads_of (tasks s) task) (if sint lvl > 0 then 100 else 120) (tasks s) (tasks s'))"
proof -
  have "reniced ts 100 h (foldl (\<lambda>h t. set_user_nice E h t AXD_NICE_BOOST) h ts)"
    "reniced ts 120 h (foldl (\<lambda>h t. set_user_nice E h t AXD_NICE_NORMAL) h ts)" for ts h
    using renice_all [OF assms, of "- 20" ts h] renice_all [OF assms, of 0 ts h] by (simp_all add: axd_consts)
  then show ?thesis
    by (auto simp: axd_set_boost_def AXD_INVALID_PID_def Let_def rcu_read_lock_def rcu_read_unlock_def
        inc_boost_set_def lookup_group_def split: option.split)
qed

section \<open>Sequences of driver calls\<close>

text \<open>
  What every operation of the driver promises under the two contracts: it returns; when it fails it
  has changed nothing; when it succeeds it has counted itself, and locks, allocations and reference
  counts are as before.
\<close>

locale axd_operation =
  fixes run :: "axd_env \<Rightarrow> 'a \<Rightarrow> axd_kern \<Rightarrow> axd_result" and counted :: "axd_kern \<Rightarrow> axd_kern"
  assumes outcome: "kernel_contract accepts E \<Longrightarrow> \<exists>r s'. run E a s = Some (r, s') \<and>
      (case r of Inl _ \<Rightarrow> s' = s | Inr _ \<Rightarrow> balanced s s' \<and> g_axd_stats s' = g_axd_stats (counted s))"
begin

lemma outcome_cases:
  assumes "kernel_contract accepts E"
  obtains (failed) e where "run E a s = Some (Inl e, s)"
    | (done_ok) s' where "run E a s = Some (Inr (), s')" and "balanced s s'"
        and "g_axd_stats s' = g_axd_stats (counted s)"
proof -
  obtain r s' where r: "run E a s = Some (r, s')"
    "case r of Inl _ \<Rightarrow> s' = s | Inr _ \<Rightarrow> balanced s s' \<and> g_axd_stats s' = g_axd_stats (counted s)"
    using outcome [OF assms, of a s] by blast
  show thesis
  proof (cases r)
    case (Inl e)
    then show thesis using failed r by simp
  next
    case (Inr u)
    then show thesis using done_ok r by simp
  qed
qed

lemma returns: "kernel_contract accepts E \<Longrightarrow> run E a s \<noteq> None"
  using outcome [of accepts E a s] by auto

lemma error_no_effect: "kernel_contract accepts E \<Longrightarrow> run E a s = Some (Inl e, s') \<Longrightarrow> s' = s"
  using outcome [of accepts E a s] by auto

lemma success_counted:
  "kernel_contract accepts E \<Longrightarrow> run E a s = Some (Inr u, s') \<Longrightarrow> g_axd_stats s' = g_axd_stats (counted s)"
  using outcome [of accepts E a s] by auto

lemma keeps_balance: "kernel_contract accepts E \<Longrightarrow> run E a s = Some (r, s') \<Longrightarrow> balanced s s'"
  using outcome [of accepts E a s] by (auto simp: balanced_def split: sum.splits)

end

lemma balanced_refl [simp]: "balanced s s"
  by (simp add: balanced_def)

lemma balanced_trans: "balanced s s' \<Longrightarrow> balanced s' s'' \<Longrightarrow> balanced s s''"
  by (simp add: balanced_def)

lemma balanced_pin [simp]: "balanced s (pin ts m s)"
  by (simp add: balanced_def pin_def)

lemma balanced_inc [simp]:
  "balanced s (inc_affinity_set s') = balanced s s'" "balanced s (inc_reset s') = balanced s s'"
  "balanced s (inc_boost_set s') = balanced s s'" "balanced s (inc_kswapd_pin s') = balanced s s'"
  by (simp_all add: balanced_def inc_affinity_set_def inc_reset_def inc_boost_set_def inc_kswapd_pin_def)

lemma stats_inc_pin [simp]:
  "g_axd_stats (inc_affinity_set (pin ts m s)) = g_axd_stats (inc_affinity_set s)"
  "g_axd_stats (inc_reset (pin ts m s)) = g_axd_stats (inc_reset s)"
  "g_axd_stats (inc_kswapd_pin (pin ts m s)) = g_axd_stats (inc_kswapd_pin s)"
  by (simp_all add: inc_affinity_set_def inc_reset_def inc_kswapd_pin_def pin_def)

lemma reniced_usage: "reniced ts p h h' \<Longrightarrow> usage (h' t) = usage (h t)"
  by (auto simp: reniced_def)

interpretation affinity_op: axd_operation "\<lambda>E (pid, cn, m). axd_set_affinity E pid cn m" inc_affinity_set
proof unfold_locales
  fix accepts E s and a :: "s32 \<times> string option \<times> cpumask option"
  assume K: "kernel_contract accepts E"
  obtain pid cn m where a: "a = (pid, cn, m)" by (rule prod_cases3)
  show "\<exists>r s'. (case a of (pid, cn, m) \<Rightarrow> axd_set_affinity E pid cn m) s = Some (r, s') \<and>
      (case r of Inl _ \<Rightarrow> s' = s | Inr _ \<Rightarrow> balanced s s' \<and> g_axd_stats s' = g_axd_stats (inc_affinity_set s))"
  proof (cases "\<exists>c k. cn = Some c \<and> m = Some k")
    case True
    then obtain c k where "cn = Some c" "m = Some k" by blast
    then show ?thesis
      using set_affinity_exact [of accepts E pid c k s] K
      by (auto simp: a kernel_contract_def Let_def split: option.split)
  next
    case False
    then show ?thesis
      by (auto simp: a axd_set_affinity_def split: option.split)
  qed
qed

interpretation reset_op: axd_operation axd_reset_affinity inc_reset
proof unfold_locales
  fix accepts E a s
  assume "kernel_contract accepts E"
  then show "\<exists>r s'. axd_reset_affinity E a s = Some (r, s') \<and>
      (case r of Inl _ \<Rightarrow> s' = s | Inr _ \<Rightarrow> balanced s s' \<and> g_axd_stats s' = g_axd_stats (inc_reset s))"
    using reset_affinity_exact [of accepts E a s] by (auto simp: kernel_contract_def Let_def split: option.split)
qed

interpretation kswapd_op: axd_operation axd_pin_kswapd inc_kswapd_pin
proof unfold_locales
  fix accepts E a s
  assume "kernel_contract accepts E"
  then show "\<exists>r s'. axd_pin_kswapd E a s = Some (r, s') \<and>
      (case r of Inl _ \<Rightarrow> s' = s | Inr _ \<Rightarrow> balanced s s' \<and> g_axd_stats s' = g_axd_stats (inc_kswapd_pin s))"
    using pin_kswapd_gen [of accepts E _ s]
    by (cases a) (auto simp: kernel_contract_def Let_def axd_pin_kswapd_def [of _ None])
qed

interpretation boost_op: axd_operation "\<lambda>E (pid, lvl). axd_set_boost E pid lvl" inc_boost_set
proof unfold_locales
  fix accepts E s and a :: "s32 \<times> s32"
  assume K: "kernel_contract accepts E"
  obtain pid lvl where a: "a = (pid, lvl)" by fastforce
  obtain r s' where "axd_set_boost E pid lvl s = Some (r, s')"
    "if sint pid \<le> 0 then r = Inl EINVAL \<and> s' = s
     else case lookup_group E pid s of
       None \<Rightarrow> r = Inl ESRCH \<and> s' = s
     | Some task \<Rightarrow> r = Inr () \<and> s' = (inc_boost_set s)\<lparr>tasks := tasks s'\<rparr> \<and>
         reniced (threads_of (tasks s) task) (if sint lvl > 0 then 100 else 120) (tasks s) (tasks s')"
    using set_boost_exact K unfolding kernel_contract_def by blast
  moreover have "balanced s s' \<and> g_axd_stats s' = g_axd_stats (inc_boost_set s)"
    if e: "s' = (inc_boost_set s)\<lparr>tasks := tasks s'\<rparr>" and n: "reniced ts p (tasks s) (tasks s')" for ts p
  proof -
    have "rcu_nesting s' = rcu_nesting s" "live_allocs s' = live_allocs s"
      "g_axd_stats s' = g_axd_stats (inc_boost_set s)"
      by (subst e, simp add: inc_boost_set_def)+
    then show ?thesis
      using reniced_usage [OF n] by (simp add: balanced_def)
  qed
  ultimately show "\<exists>r s'. (case a of (pid, lvl) \<Rightarrow> axd_set_boost E pid lvl) s = Some (r, s') \<and>
      (case r of Inl _ \<Rightarrow> s' = s | Inr _ \<Rightarrow> balanced s s' \<and> g_axd_stats s' = g_axd_stats (inc_boost_set s))"
    by (auto simp: a split: if_splits option.splits)
qed

lemma exec_step:
  assumes "kernel_contract accepts E"
  shows "\<exists>r s'. axd_exec E c s = Some (r, s') \<and> balanced s s' \<and>
    affinity_set_count (g_axd_stats s') = affinity_set_count (g_axd_stats s) + of_bool (is_set_affinity c \<and> r = Inr ()) \<and>
    reset_count (g_axd_stats s') = reset_count (g_axd_stats s) + of_bool (is_reset c \<and> r = Inr ()) \<and>
    boost_set_count (g_axd_stats s') = boost_set_count (g_axd_stats s) + of_bool (is_boost c \<and> r = Inr ()) \<and>
    kswapd_pin_count (g_axd_stats s') = kswapd_pin_count (g_axd_stats s) + of_bool (is_kswapd c \<and> r = Inr ())"
proof (cases c)
  case (Set_affinity pid cn m)
  obtain r s' where "axd_set_affinity E pid cn m s = Some (r, s')"
    "case r of Inl _ \<Rightarrow> s' = s | Inr _ \<Rightarrow> balanced s s' \<and> g_axd_stats s' = g_axd_stats (inc_affinity_set s)"
    using affinity_op.outcome [OF assms, of "(pid, cn, m)" s] by auto
  then show ?thesis
    by (cases r) (simp_all add: Set_affinity inc_affinity_set_def)
next
  case (Reset_affinity pid)
  obtain r s' where "axd_reset_affinity E pid s = Some (r, s')"
    "case r of Inl _ \<Rightarrow> s' = s | Inr _ \<Rightarrow> balanced s s' \<and> g_axd_stats s' = g_axd_stats (inc_reset s)"
    using reset_op.outcome [OF assms, of "pid" s] by auto
  then show ?thesis
    by (cases r) (simp_all add: Reset_affinity inc_reset_def)
next
  case (Set_boost pid lvl)
  obtain r s' where "axd_set_boost E pid lvl s = Some (r, s')"
    "case r of Inl _ \<Rightarrow> s' = s | Inr _ \<Rightarrow> balanced s s' \<and> g_axd_stats s' = g_axd_stats (inc_boost_set s)"
    using boost_op.outcome [OF assms, of "(pid, lvl)" s] by auto
  then show ?thesis
    by (cases r) (simp_all add: Set_boost inc_boost_set_def)
next
  case (Pin_kswapd m)
  obtain r s' where "axd_pin_kswapd E m s = Some (r, s')"
    "case r of Inl _ \<Rightarrow> s' = s | Inr _ \<Rightarrow> balanced s s' \<and> g_axd_stats s' = g_axd_stats (inc_kswapd_pin s)"
    using kswapd_op.outcome [OF assms, of "m" s] by auto
  then show ?thesis
    by (cases r) (simp_all add: Pin_kswapd inc_kswapd_pin_def)
qed

lemma successes_Cons [simp]:
  "successes kind [] rs = 0"
  "successes kind (c # cs) (r # rs) = of_bool (kind c \<and> r = Inr ()) + successes kind cs rs"
  by (simp_all add: successes_def)

lemma run_outcome:
  assumes "kernel_contract accepts E"
  shows "\<exists>rs s'. axd_run E cs s = Some (rs, s') \<and> length rs = length cs \<and> balanced s s' \<and>
    affinity_set_count (g_axd_stats s') = affinity_set_count (g_axd_stats s) + of_nat (successes is_set_affinity cs rs) \<and>
    reset_count (g_axd_stats s') = reset_count (g_axd_stats s) + of_nat (successes is_reset cs rs) \<and>
    boost_set_count (g_axd_stats s') = boost_set_count (g_axd_stats s) + of_nat (successes is_boost cs rs) \<and>
    kswapd_pin_count (g_axd_stats s') = kswapd_pin_count (g_axd_stats s) + of_nat (successes is_kswapd cs rs)"
proof (induction cs arbitrary: s)
  case Nil
  then show ?case by simp
next
  case (Cons c cs)
  obtain r s1 where 1: "axd_exec E c s = Some (r, s1)" "balanced s s1"
    "affinity_set_count (g_axd_stats s1) = affinity_set_count (g_axd_stats s) + of_bool (is_set_affinity c \<and> r = Inr ())"
    "reset_count (g_axd_stats s1) = reset_count (g_axd_stats s) + of_bool (is_reset c \<and> r = Inr ())"
    "boost_set_count (g_axd_stats s1) = boost_set_count (g_axd_stats s) + of_bool (is_boost c \<and> r = Inr ())"
    "kswapd_pin_count (g_axd_stats s1) = kswapd_pin_count (g_axd_stats s) + of_bool (is_kswapd c \<and> r = Inr ())"
    using exec_step [OF assms] by blast
  obtain rs s2 where "axd_run E cs s1 = Some (rs, s2)" "length rs = length cs" "balanced s1 s2"
    "affinity_set_count (g_axd_stats s2) = affinity_set_count (g_axd_stats s1) + of_nat (successes is_set_affinity cs rs)"
    "reset_count (g_axd_stats s2) = reset_count (g_axd_stats s1) + of_nat (successes is_reset cs rs)"
    "boost_set_count (g_axd_stats s2) = boost_set_count (g_axd_stats s1) + of_nat (successes is_boost cs rs)"
    "kswapd_pin_count (g_axd_stats s2) = kswapd_pin_count (g_axd_stats s1) + of_nat (successes is_kswapd cs rs)"
    using Cons.IH [of s1] by blast
  then show ?case
    using 1 balanced_trans [of s s1 s2] by (simp add: add.assoc)
qed

text \<open>A kernel with five tasks for worked examples: pid 42 is a group of three threads.\<close>

definition example_axd_env :: axd_env where
  "example_axd_env = \<lparr>find_task_by_vpid = (\<lambda>pid. if pid = 42 then Some 4 else None),
    kmalloc_ok = (\<lambda>_. True), cpu_online_mask = 0xF, cpu_possible_mask = 0xFF, processes = [1, 4, 9],
    set_cpus_allowed_ptr = (\<lambda>h t m. if flags (h t) AND 0x4000000 = 0
      then (0, h(t := (h t)\<lparr>cpus_mask := m\<rparr>)) else (- 22, h)),
    set_user_nice = (\<lambda>h t n. h(t := (h t)\<lparr>static_prio := 120 + n\<rparr>))\<rparr>"

definition example_accepts :: "u32 \<Rightarrow> cpumask \<Rightarrow> bool" where
  "example_accepts fl m \<longleftrightarrow> fl AND 0x4000000 = 0"

definition example_axd_kern :: axd_kern where
  "example_axd_kern = \<lparr>tasks = example_heap(4 := example_task\<lparr>signal := Some [4, 5, 6]\<rparr>,
      5 := example_task\<lparr>comm := ''RenderThread''\<rparr>,
      6 := example_task\<lparr>comm := ''RenderThread'', flags := 0x4000000\<rparr>,
      9 := example_task\<lparr>comm := ''kswapd0''\<rparr>),
    rcu_nesting = 0, live_allocs = 0,
    g_axd_stats = \<lparr>affinity_set_count = 0, boost_set_count = 0, reset_count = 0, kswapd_pin_count = 0\<rparr>\<rparr>"

lemmas example_axd_defs = example_axd_env_def example_axd_kern_def example_task_def example_heap_def
  example_accepts_def

lemma example_contract: "kernel_contract example_accepts example_axd_env"
proof -
  have "set_user_nice example_axd_env h t n = h(t := (h t)\<lparr>static_prio := 120 + n, kabi_area := kabi_area (h t)\<rparr>)" for h t n
    by (simp add: example_axd_env_def)
  then have "nice_contract example_axd_env"
    unfolding nice_contract_def by blast
  then show ?thesis
    by (simp add: kernel_contract_def affinity_contract_def example_axd_env_def example_accepts_def)
qed

lemmas example_affinity_contract = example_contract [unfolded kernel_contract_def, THEN conjunct1]
lemmas example_nice_contract = example_contract [unfolded kernel_contract_def, THEN conjunct2]

lemma example_group: "lookup_group example_axd_env 42 example_axd_kern = Some 4"
  by (simp add: lookup_group_def example_axd_defs kernel_consts)

lemma example_task4:
  "find_task_by_vpid example_axd_env 42 = Some 4" "signal (tasks example_axd_kern 4) = Some [4, 5, 6]"
  "flags (tasks example_axd_kern 4) AND PF_EXITING = 0"
  by (simp_all add: example_axd_defs kernel_consts)

section \<open>Properties\<close>

text \<open>
  C5: any sequence of driver calls is well behaved. Under the contracts of the kernel functions
  every call of the sequence returns, no array is overrun, and at the end the RCU nesting, the
  live allocations and every task's reference count are as before; each counter has grown by the
  number of successful calls of its kind.
\<close>

theorem axd_calls_balanced:
  assumes "kernel_contract accepts E"
  shows "\<exists>rs s'. axd_run E cs s = Some (rs, s') \<and> length rs = length cs \<and>
    rcu_nesting s' = rcu_nesting s \<and> live_allocs s' = live_allocs s \<and>
    (\<forall>t. usage (tasks s' t) = usage (tasks s t)) \<and>
    affinity_set_count (g_axd_stats s') = affinity_set_count (g_axd_stats s) + of_nat (successes is_set_affinity cs rs) \<and>
    reset_count (g_axd_stats s') = reset_count (g_axd_stats s) + of_nat (successes is_reset cs rs) \<and>
    boost_set_count (g_axd_stats s') = boost_set_count (g_axd_stats s) + of_nat (successes is_boost cs rs) \<and>
    kswapd_pin_count (g_axd_stats s') = kswapd_pin_count (g_axd_stats s) + of_nat (successes is_kswapd cs rs)"
  using run_outcome [OF assms, of cs s] unfolding balanced_def by blast

theorem axd_calls_balanced_witness:
  "\<exists>rs s'. axd_run example_axd_env [Set_affinity 42 (Some ''RenderThread'') (Some 0xC), Pin_kswapd (Some 1),
      Reset_affinity 7, Set_boost 42 1] example_axd_kern = Some (rs, s') \<and>
    live_allocs s' = 0 \<and> rcu_nesting s' = 0 \<and> usage (tasks s' 5) = 1"
  using axd_calls_balanced [OF example_contract, of "[Set_affinity 42 (Some ''RenderThread'') (Some 0xC),
      Pin_kswapd (Some 1), Reset_affinity 7, Set_boost 42 1]" example_axd_kern]
  by (auto simp: example_axd_defs simp del: axd_run.simps axd_exec.simps)

text \<open>
  C6: setting the affinity of named threads, on every branch. A bad pid or a mask without an
  online CPU gives -EINVAL, a failed allocation -ENOMEM, a missing or exiting group -ESRCH, no
  thread of that name -ENOENT and only refusing threads -EINVAL, all with nothing changed; otherwise
  exactly the willing threads among the first 512 of that name have the new mask and the success is
  counted.
\<close>

theorem axd_set_affinity_effect:
  assumes "affinity_contract accepts E"
  shows "axd_set_affinity E pid (Some cn) (Some m) s =
    Some (if sint pid \<le> 0 \<or> m AND cpu_online_mask E = 0 then (Inl EINVAL, s)
      else if \<not> kmalloc_ok E 4096 then (Inl ENOMEM, s)
      else case find_task_by_vpid E pid of
        None \<Rightarrow> (Inl ESRCH, s)
      | Some task \<Rightarrow>
          if signal (tasks s task) = None \<or> flags (tasks s task) AND PF_EXITING \<noteq> 0 then (Inl ESRCH, s)
          else let sel = named_threads s task cn; ok = willing accepts m s sel
            in if ok \<noteq> [] then (Inr (), inc_affinity_set (pin ok m s))
               else (if sel = [] then Inl ENOENT else Inl EINVAL, s))"
  using set_affinity_exact [OF assms, of pid cn m s] by (simp add: lookup_group_def Let_def split: option.split)

theorem axd_set_affinity_effect_witness:
  "axd_set_affinity example_axd_env 42 (Some ''RenderThread'') (Some 0xC) example_axd_kern =
    Some (Inr (), inc_affinity_set (pin [5] 0xC example_axd_kern))"
proof -
  have "willing example_accepts 0xC example_axd_kern (named_threads example_axd_kern 4 ''RenderThread'') = [5]"
    by (simp add: willing_def named_threads_def threads_of_def axd_comm_matches_eq NUL_def example_axd_defs)
  then show ?thesis
    by (subst axd_set_affinity_effect [OF example_affinity_contract])
      (simp add: example_task4, simp add: example_axd_env_def)
qed

text \<open>
  C31: resetting a group gives all possible CPUs back to the willing threads among its first 512;
  when there is none, or no usable group, it fails with -ESRCH and has changed nothing.
\<close>

theorem axd_reset_affinity_effect:
  assumes "affinity_contract accepts E"
  shows "axd_reset_affinity E pid s =
    Some (if sint pid \<le> 0 then (Inl EINVAL, s)
      else if \<not> kmalloc_ok E 4096 then (Inl ENOMEM, s)
      else case find_task_by_vpid E pid of
        None \<Rightarrow> (Inl ESRCH, s)
      | Some task \<Rightarrow>
          if signal (tasks s task) = None \<or> flags (tasks s task) AND PF_EXITING \<noteq> 0 then (Inl ESRCH, s)
          else let ok = willing accepts (cpu_possible_mask E) s (take 512 (threads_of (tasks s) task))
            in if ok \<noteq> [] then (Inr (), inc_reset (pin ok (cpu_possible_mask E) s)) else (Inl ESRCH, s))"
  using reset_affinity_exact [OF assms, of pid s] by (simp add: lookup_group_def Let_def split: option.split)

theorem axd_reset_affinity_effect_witness:
  "axd_reset_affinity example_axd_env 42 example_axd_kern =
    Some (Inr (), inc_reset (pin [4, 5] 0xFF example_axd_kern))"
proof -
  have "willing example_accepts 0xFF example_axd_kern (take 512 (threads_of (tasks example_axd_kern) 4)) = [4, 5]"
    by (simp add: willing_def threads_of_def example_axd_defs)
  moreover have "cpu_possible_mask example_axd_env = 0xFF"
    by (simp add: example_axd_env_def)
  ultimately show ?thesis
    by (subst axd_reset_affinity_effect [OF example_affinity_contract])
      (simp add: example_task4, simp add: example_axd_env_def)
qed

text \<open>
  C32: boosting a group sets the static priority of every thread of it to 100 for a positive level
  and back to 120 otherwise, changes no other field but the threads' vendor-reserved words and no
  other task, and counts itself; a bad pid and an unusable group are refused with nothing changed.
\<close>

theorem axd_set_boost_effect:
  assumes "nice_contract E"
  shows "\<exists>r s'. axd_set_boost E pid lvl s = Some (r, s') \<and>
    (if sint pid \<le> 0 then r = Inl EINVAL \<and> s' = s
     else case find_task_by_vpid E pid of
       None \<Rightarrow> r = Inl ESRCH \<and> s' = s
     | Some task \<Rightarrow>
         if signal (tasks s task) = None \<or> flags (tasks s task) AND PF_EXITING \<noteq> 0 then r = Inl ESRCH \<and> s' = s
         else r = Inr () \<and> s' = (inc_boost_set s)\<lparr>tasks := tasks s'\<rparr> \<and>
           reniced (threads_of (tasks s) task) (if sint lvl > 0 then 100 else 120) (tasks s) (tasks s'))"
  using set_boost_exact [OF assms, of pid lvl s] by (simp add: lookup_group_def split: option.splits if_splits)

theorem axd_set_boost_effect_witness:
  "\<exists>s'. axd_set_boost example_axd_env 42 1 example_axd_kern = Some (Inr (), s') \<and>
    reniced [4, 5, 6] 100 (tasks example_axd_kern) (tasks s')"
proof -
  have "threads_of (tasks example_axd_kern) 4 = [4, 5, 6]"
    by (simp add: threads_of_def example_axd_kern_def)
  then show ?thesis
    using axd_set_boost_effect [OF example_nice_contract, of 42 1 example_axd_kern]
    by (auto simp: example_task4)
qed

text \<open>
  C33: pinning the swap threads sets the mask of exactly the willing processes among the first 32
  whose name starts with \<open>kswapd\<close>; without any it reports -ESRCH, for a mask without an online CPU
  -EINVAL, with nothing changed.
\<close>

theorem axd_pin_kswapd_effect:
  assumes "affinity_contract accepts E" and "\<forall>t. NUL \<notin> set (comm (tasks s t))"
  shows "axd_pin_kswapd E (Some m) s =
    Some (if m AND cpu_online_mask E = 0 then (Inl EINVAL, s)
      else let ok = willing accepts m s (kswapd_threads E s)
        in if ok \<noteq> [] then (Inr (), inc_kswapd_pin (pin ok m s)) else (Inl ESRCH, s))"
  using assms by (rule pin_kswapd_exact)

theorem axd_pin_kswapd_effect_witness:
  "axd_pin_kswapd example_axd_env (Some 1) example_axd_kern =
    Some (Inr (), inc_kswapd_pin (pin [9] 1 example_axd_kern))"
proof -
  have "willing example_accepts 1 example_axd_kern (kswapd_threads example_axd_env example_axd_kern) = [9]"
    by (simp add: willing_def kswapd_threads_def example_axd_defs)
  moreover have "\<forall>t. NUL \<notin> set (comm (tasks example_axd_kern t))"
    by (simp add: example_axd_defs NUL_def)
  ultimately show ?thesis
    by (subst axd_pin_kswapd_effect [OF example_affinity_contract]) (simp_all add: example_axd_env_def)
qed

end
