(* ===== verification/Dragonite_Proc.thy ===== *)
theory Dragonite_Proc
  imports Dragonite_Core Hook_Registry
begin

text \<open>
  The proc files of the AxDragonite driver (\<^verbatim>\<open>ax_dragonite_proc.c\<close>) and its module entry points:
  writing a target pid, an affinity rule, a reset, a boost or a swap-thread mask, and reading the
  target pid and the counters. A write is a byte count and what \<open>copy_from_user\<close> delivers,
  \<^const>\<open>None\<close> for a fault. The number parsers of the kernel library are fields of \<open>klib\<close>. As in
  the core, a result \<^const>\<open>None\<close> stands for a store outside a buffer. The mutex of the source guards
  single reads and writes of the target pid, which are atomic here.
\<close>

section \<open>Definitions\<close>

definition AXD_MAX_KBUF_PID :: nat where "AXD_MAX_KBUF_PID = 32"
definition AXD_MAX_KBUF_AFFINITY :: nat where "AXD_MAX_KBUF_AFFINITY = 256"
definition AXD_MAX_KBUF_BOOST :: nat where "AXD_MAX_KBUF_BOOST = 64"
definition AXD_MAX_KBUF_KSWAPD :: nat where "AXD_MAX_KBUF_KSWAPD = 32"
definition AXD_RADIX_DEC :: nat where "AXD_RADIX_DEC = 10"
definition AXD_RADIX_HEX :: nat where "AXD_RADIX_HEX = 16"
definition AXD_DEFAULT_BOOST_LEVEL :: s32 where "AXD_DEFAULT_BOOST_LEVEL = 1"
definition AXD_VERSION :: string where "AXD_VERSION = ''1.0.0''"

lemmas axd_proc_consts = AXD_MAX_KBUF_PID_def AXD_MAX_KBUF_AFFINITY_def AXD_MAX_KBUF_BOOST_def
  AXD_MAX_KBUF_KSWAPD_def AXD_RADIX_DEC_def AXD_RADIX_HEX_def AXD_DEFAULT_BOOST_LEVEL_def

text \<open>
  The kernel's parsers: a number in a base (0 for the prefix notation), or an error; for \<open>sscanf\<close>
  with the format \<^verbatim>\<open>%d %d\<close> the list of the numbers converted.
\<close>

record klib =
  kstrtoint :: "string \<Rightarrow> nat \<Rightarrow> errno + s32"
  kstrtoul :: "string \<Rightarrow> nat \<Rightarrow> errno + u64"
  sscanf_d_d :: "string \<Rightarrow> s32 list"

text \<open>\<open>isspace\<close> of the kernel's character table, and \<open>strim\<close>, which also cuts the buffer it is given.\<close>

definition isspace :: "char \<Rightarrow> bool" where
  "isspace c \<longleftrightarrow> (of_char c :: nat) \<in> {9, 10, 11, 12, 13, 32, 160}"

definition strim_cut :: "string \<Rightarrow> string" where
  "strim_cut s = rev (dropWhile isspace (rev s))"

definition strim :: "string \<Rightarrow> string" where
  "strim s = dropWhile isspace (strim_cut s)"

text \<open>Copying \<open>count\<close> bytes into a buffer of \<open>slots\<close> bytes and storing a NUL after them.\<close>

definition kbuf_store :: "nat \<Rightarrow> nat \<Rightarrow> string \<Rightarrow> string option" where
  "kbuf_store slots count bytes = (if count < slots then Some (cstr (take count bytes)) else None)"

text \<open>The write handlers, and the operation tables the proc files are created with.\<close>

datatype axd_file = Nta_pid | Nta_affinity | Nta_reset | Dragonite_boost | Dragonite_kswapd

datatype axd_ops = Nta_pid_ops | Nta_affinity_ops | Nta_reset_ops | Dragonite_boost_ops
  | Dragonite_kswapd_ops | Dragonite_stats_ops

text \<open>Files below directories of the proc tree: directory, name, mode and operations.\<close>

record proc_fs =
  proc_dirs :: "string list"
  proc_files :: "(string \<times> string \<times> nat \<times> axd_ops) list"

record axd_driver =
  kern :: axd_kern
  g_current_target_pid :: s32
  ax_nta_dir :: bool
  ax_dragonite_dir :: bool

type_synonym write_result = "((errno + nat) \<times> axd_driver) option"

text \<open>
  Each handler is split where it enters the mutex: what it computes from the bytes alone, and what it
  does with the driver afterwards.
\<close>

definition nta_pid_parse :: "klib \<Rightarrow> nat \<Rightarrow> string option \<Rightarrow> (errno + s32) option" where
  "nta_pid_parse L count ubuf =
    (if count \<ge> AXD_MAX_KBUF_PID then Some (Inl EINVAL)
     else case ubuf of
       None \<Rightarrow> Some (Inl EFAULT)
     | Some bytes \<Rightarrow>
         do {
           kbuf \<leftarrow> kbuf_store AXD_MAX_KBUF_PID count bytes;
           Some (kstrtoint L (strim kbuf) AXD_RADIX_DEC)
         })"

definition nta_pid_write :: "klib \<Rightarrow> nat \<Rightarrow> string option \<Rightarrow> axd_driver \<Rightarrow> write_result" where
  "nta_pid_write L count ubuf S =
    do {
      ret \<leftarrow> nta_pid_parse L count ubuf;
      Some (case ret of
          Inl e \<Rightarrow> (Inl e, S)
        | Inr pid \<Rightarrow> (Inr count, S\<lparr>g_current_target_pid := pid\<rparr>))
    }"

definition nta_pid_show :: "axd_driver \<Rightarrow> string" where
  "nta_pid_show S = dec_int (sint (g_current_target_pid S)) @ NL"

text \<open>The tokens of an affinity rule: a pid if the line names one, the thread name and the mask text.\<close>

definition nta_tokens :: "klib \<Rightarrow> string \<Rightarrow> (s32 option \<times> string \<times> string) option" where
  "nta_tokens L kbuf =
    (case split_at_char (CHR '' '') (strim kbuf) of
       None \<Rightarrow> None
     | Some (token1, rest) \<Rightarrow>
         let token2 = strim rest in
         (case split_at_char (CHR '' '') token2 of
            None \<Rightarrow> Some (None, token1, token2)
          | Some (comm_str, rest3) \<Rightarrow>
              (case kstrtoint L token1 AXD_RADIX_DEC of
                 Inl _ \<Rightarrow> Some (None, token1, token2)
               | Inr parsed_pid \<Rightarrow>
                   if sint parsed_pid > 0 then Some (Some parsed_pid, comm_str, strim rest3)
                   else Some (None, token1, token2))))"

text \<open>Base 0 first, then base 16.\<close>

definition parse_mask :: "klib \<Rightarrow> string \<Rightarrow> string \<Rightarrow> errno + u64" where
  "parse_mask L s s' = (case kstrtoul L s 0 of Inr v \<Rightarrow> Inr v | Inl _ \<Rightarrow> kstrtoul L s' AXD_RADIX_HEX)"

definition nta_affinity_parse ::
  "axd_env \<Rightarrow> klib \<Rightarrow> nat \<Rightarrow> string option \<Rightarrow> axd_driver \<Rightarrow>
    ((errno + (s32 option \<times> string \<times> string)) \<times> axd_driver) option" where
  "nta_affinity_parse E L count ubuf S =
    (if count > AXD_MAX_KBUF_AFFINITY then Some (Inl EINVAL, S)
     else if \<not> kmalloc_ok E (count + 1) then Some (Inl ENOMEM, S)
     else
       let S = S\<lparr>kern := kmalloc (kern S)\<rparr> in
       (case ubuf of
          None \<Rightarrow> Some (Inl EFAULT, S\<lparr>kern := kfree (kern S)\<rparr>)
        | Some bytes \<Rightarrow>
            do {
              kbuf \<leftarrow> kbuf_store (count + 1) count bytes;
              case nta_tokens L kbuf of
                None \<Rightarrow> Some (Inl EINVAL, S\<lparr>kern := kfree (kern S)\<rparr>)
              | Some tokens \<Rightarrow> Some (Inr tokens, S)
            }))"

text \<open>From the mask on, with the buffer still allocated.\<close>

definition nta_affinity_apply ::
  "axd_env \<Rightarrow> klib \<Rightarrow> nat \<Rightarrow> s32 \<Rightarrow> string \<Rightarrow> string \<Rightarrow> axd_driver \<Rightarrow> write_result" where
  "nta_affinity_apply E L count pid comm_str mask_str S =
    (case parse_mask L mask_str mask_str of
       Inl e \<Rightarrow> Some (Inl e, S\<lparr>kern := kfree (kern S)\<rparr>)
     | Inr mask_val \<Rightarrow>
         if mask_val = 0 then Some (Inl EINVAL, S\<lparr>kern := kfree (kern S)\<rparr>)
         else
           do {
             (ret, k) \<leftarrow> axd_set_affinity E pid (Some comm_str) (Some mask_val) (kern S);
             let S = S\<lparr>kern := kfree k\<rparr>;
             Some (case ret of
                 Inl e \<Rightarrow> if e \<noteq> ENOENT then (Inl e, S) else (Inr count, S)
               | Inr _ \<Rightarrow> (Inr count, S))
           })"

definition nta_affinity_write :: "axd_env \<Rightarrow> klib \<Rightarrow> nat \<Rightarrow> string option \<Rightarrow> axd_driver \<Rightarrow> write_result" where
  "nta_affinity_write E L count ubuf S =
    do {
      (ret, S) \<leftarrow> nta_affinity_parse E L count ubuf S;
      case ret of
        Inl e \<Rightarrow> Some (Inl e, S)
      | Inr (Some pid, comm_str, mask_str) \<Rightarrow> nta_affinity_apply E L count pid comm_str mask_str S
      | Inr (None, comm_str, mask_str) \<Rightarrow>
          nta_affinity_apply E L count (g_current_target_pid S) comm_str mask_str S
    }"

definition nta_reset_parse :: "klib \<Rightarrow> nat \<Rightarrow> string option \<Rightarrow> (errno + s32) option" where
  "nta_reset_parse L count ubuf =
    (if count \<ge> AXD_MAX_KBUF_PID then Some (Inl EINVAL)
     else case ubuf of
       Some bytes \<Rightarrow>
         if count > 0 then
           do {
             kbuf \<leftarrow> kbuf_store AXD_MAX_KBUF_PID count bytes;
             Some (Inr (case kstrtoint L (strim kbuf) AXD_RADIX_DEC of Inl _ \<Rightarrow> 0 | Inr pid \<Rightarrow> pid))
           }
         else Some (Inr 0)
     | None \<Rightarrow> Some (Inr 0))"

definition nta_reset_apply :: "axd_env \<Rightarrow> nat \<Rightarrow> s32 \<Rightarrow> axd_driver \<Rightarrow> write_result" where
  "nta_reset_apply E count pid S =
    do {
      (ret, k) \<leftarrow> axd_reset_affinity E pid (kern S);
      let S = S\<lparr>kern := k\<rparr>;
      Some (case ret of Inl e \<Rightarrow> (Inl e, S) | Inr _ \<Rightarrow> (Inr count, S))
    }"

definition nta_reset_write :: "axd_env \<Rightarrow> klib \<Rightarrow> nat \<Rightarrow> string option \<Rightarrow> axd_driver \<Rightarrow> write_result" where
  "nta_reset_write E L count ubuf S =
    do {
      ret \<leftarrow> nta_reset_parse L count ubuf;
      case ret of
        Inl e \<Rightarrow> Some (Inl e, S)
      | Inr pid \<Rightarrow> nta_reset_apply E count (if sint pid \<le> 1 then g_current_target_pid S else pid) S
    }"

definition dragonite_boost_write :: "axd_env \<Rightarrow> klib \<Rightarrow> nat \<Rightarrow> string option \<Rightarrow> axd_driver \<Rightarrow> write_result" where
  "dragonite_boost_write E L count ubuf S =
    (if count \<ge> AXD_MAX_KBUF_BOOST then Some (Inl EINVAL, S)
     else case ubuf of
       None \<Rightarrow> Some (Inl EFAULT, S)
     | Some bytes \<Rightarrow>
         do {
           kbuf \<leftarrow> kbuf_store AXD_MAX_KBUF_BOOST count bytes;
           case sscanf_d_d L (strim kbuf) of
             [] \<Rightarrow> Some (Inl EINVAL, S)
           | pid # lvls \<Rightarrow>
               do {
                 let boost_level = (case lvls of [] \<Rightarrow> AXD_DEFAULT_BOOST_LEVEL | lvl # _ \<Rightarrow> lvl);
                 (ret, k) \<leftarrow> axd_set_boost E pid boost_level (kern S);
                 let S = S\<lparr>kern := k\<rparr>;
                 Some (case ret of Inl e \<Rightarrow> (Inl e, S) | Inr _ \<Rightarrow> (Inr count, S))
               }
         })"

definition dragonite_kswapd_write :: "axd_env \<Rightarrow> klib \<Rightarrow> nat \<Rightarrow> string option \<Rightarrow> axd_driver \<Rightarrow> write_result" where
  "dragonite_kswapd_write E L count ubuf S =
    (if count \<ge> AXD_MAX_KBUF_KSWAPD then Some (Inl EINVAL, S)
     else case ubuf of
       None \<Rightarrow> Some (Inl EFAULT, S)
     | Some bytes \<Rightarrow>
         do {
           kbuf \<leftarrow> kbuf_store AXD_MAX_KBUF_KSWAPD count bytes;
           case parse_mask L (strim kbuf) (strim (strim_cut kbuf)) of
             Inl e \<Rightarrow> Some (Inl e, S)
           | Inr mask_val \<Rightarrow>
               if mask_val = 0 then Some (Inl EINVAL, S)
               else
                 do {
                   (ret, k) \<leftarrow> axd_pin_kswapd E (Some mask_val) (kern S);
                   let S = S\<lparr>kern := k\<rparr>;
                   Some (case ret of
                       Inl e \<Rightarrow> if e \<noteq> ESRCH then (Inl e, S) else (Inr count, S)
                     | Inr _ \<Rightarrow> (Inr count, S))
                 }
         })"

text \<open>The statistics, one \<open>seq_printf\<close> at a time.\<close>

definition stats_lines :: "(axd_driver \<Rightarrow> string) list" where
  "stats_lines =
    [\<lambda>S. ''ax_dragonite version: '' @ AXD_VERSION @ NL,
     \<lambda>S. ''target_pid: '' @ dec_int (sint (g_current_target_pid S)) @ NL,
     \<lambda>S. ''affinity_sets: '' @ dec_int (sint (affinity_set_count (g_axd_stats (kern S)))) @ NL,
     \<lambda>S. ''boost_sets: '' @ dec_int (sint (boost_set_count (g_axd_stats (kern S)))) @ NL,
     \<lambda>S. ''affinity_resets: '' @ dec_int (sint (reset_count (g_axd_stats (kern S)))) @ NL,
     \<lambda>S. ''kswapd_pins: '' @ dec_int (sint (kswapd_pin_count (g_axd_stats (kern S)))) @ NL]"

definition dragonite_stats_show :: "axd_driver \<Rightarrow> string" where
  "dragonite_stats_show S = concat (map (\<lambda>line. line S) stats_lines)"

text \<open>
  The proc tree. \<open>mk\<close> tells whether \<open>proc_mkdir\<close> and \<open>proc_create\<close> return an entry for a
  directory and a file in it; the code does not look at the result of the latter.
\<close>

definition proc_mkdir :: "(string \<Rightarrow> bool) \<Rightarrow> string \<Rightarrow> proc_fs \<Rightarrow> proc_fs" where
  "proc_mkdir mk d F = (if mk d then F\<lparr>proc_dirs := d # proc_dirs F\<rparr> else F)"

definition proc_create_in ::
  "(string \<Rightarrow> string \<Rightarrow> bool) \<Rightarrow> string \<Rightarrow> string \<Rightarrow> nat \<Rightarrow> axd_ops \<Rightarrow> proc_fs \<Rightarrow> proc_fs" where
  "proc_create_in mk d f md ops F = (if mk d f then F\<lparr>proc_files := (d, f, md, ops) # proc_files F\<rparr> else F)"

definition remove_proc_subtree :: "string \<Rightarrow> proc_fs \<Rightarrow> proc_fs" where
  "remove_proc_subtree d F =
    F\<lparr>proc_dirs := removeAll d (proc_dirs F), proc_files := filter (\<lambda>(e, f, md). e \<noteq> d) (proc_files F)\<rparr>"

definition AXD_PROC_NTA_DIR :: string where "AXD_PROC_NTA_DIR = ''ax_named_thread_affinity''"
definition AXD_PROC_DRAGONITE_DIR :: string where "AXD_PROC_DRAGONITE_DIR = ''ax_dragonite''"

definition AXD_PROC_PID :: string where "AXD_PROC_PID = ''pid''"
definition AXD_PROC_NTA :: string where "AXD_PROC_NTA = ''named_thread_affinity''"
definition AXD_PROC_RESET :: string where "AXD_PROC_RESET = ''reset''"
definition AXD_PROC_BOOST :: string where "AXD_PROC_BOOST = ''boost''"
definition AXD_PROC_KSWAPD_PIN :: string where "AXD_PROC_KSWAPD_PIN = ''kswapd_pin''"
definition AXD_PROC_STATS :: string where "AXD_PROC_STATS = ''stats''"

lemmas axd_names = AXD_PROC_PID_def AXD_PROC_NTA_def AXD_PROC_RESET_def AXD_PROC_BOOST_def
  AXD_PROC_KSWAPD_PIN_def AXD_PROC_STATS_def

definition axd_proc_init ::
  "(string \<Rightarrow> bool) \<Rightarrow> (string \<Rightarrow> string \<Rightarrow> bool) \<Rightarrow> axd_driver \<Rightarrow> proc_fs \<Rightarrow> s32 \<times> axd_driver \<times> proc_fs" where
  "axd_proc_init mkd mkf S F =
    (let S = S\<lparr>ax_nta_dir := mkd AXD_PROC_NTA_DIR\<rparr>;
         F = proc_mkdir mkd AXD_PROC_NTA_DIR F;
         F = (if ax_nta_dir S
              then proc_create_in mkf AXD_PROC_NTA_DIR AXD_PROC_RESET mode_0222 Nta_reset_ops
                (proc_create_in mkf AXD_PROC_NTA_DIR AXD_PROC_NTA mode_0222 Nta_affinity_ops
                  (proc_create_in mkf AXD_PROC_NTA_DIR AXD_PROC_PID mode_0666 Nta_pid_ops F))
              else F);
         S = S\<lparr>ax_dragonite_dir := mkd AXD_PROC_DRAGONITE_DIR\<rparr>;
         F = proc_mkdir mkd AXD_PROC_DRAGONITE_DIR F;
         F = (if ax_dragonite_dir S
              then proc_create_in mkf AXD_PROC_DRAGONITE_DIR AXD_PROC_STATS mode_0444 Dragonite_stats_ops
                (proc_create_in mkf AXD_PROC_DRAGONITE_DIR AXD_PROC_KSWAPD_PIN mode_0222 Dragonite_kswapd_ops
                  (proc_create_in mkf AXD_PROC_DRAGONITE_DIR AXD_PROC_BOOST mode_0222 Dragonite_boost_ops F))
              else F)
     in (0, S, F))"

definition axd_proc_exit :: "axd_driver \<Rightarrow> proc_fs \<Rightarrow> proc_fs" where
  "axd_proc_exit S F =
    (let F = (if ax_nta_dir S then remove_proc_subtree AXD_PROC_NTA_DIR F else F)
     in if ax_dragonite_dir S then remove_proc_subtree AXD_PROC_DRAGONITE_DIR F else F)"

definition axd_init ::
  "(string \<Rightarrow> bool) \<Rightarrow> (string \<Rightarrow> string \<Rightarrow> bool) \<Rightarrow> axd_driver \<Rightarrow> proc_fs \<Rightarrow> s32 \<times> axd_driver \<times> proc_fs" where
  "axd_init mkd mkf S F =
    (let S = S\<lparr>kern := (kern S)\<lparr>g_axd_stats := \<lparr>affinity_set_count = 0, boost_set_count = 0, reset_count = 0,
           kswapd_pin_count = 0\<rparr>\<rparr>\<rparr>;
         (ret, S, F) = axd_proc_init mkd mkf S F
     in if ret \<noteq> 0 then (ret, S, F) else (0, S, F))"

definition axd_exit :: "axd_driver \<Rightarrow> proc_fs \<Rightarrow> proc_fs" where
  "axd_exit S F = axd_proc_exit S F"

text \<open>
  What \<^verbatim>\<open>init.axion.rc\<close> does to these files on boot: init's \<open>chmod\<close> gives an existing file a new mode
  (a missing file is logged and skipped). The owners set by \<open>chown\<close> are not part of the model.
\<close>

definition chmod :: "nat \<Rightarrow> string \<Rightarrow> string \<Rightarrow> proc_fs \<Rightarrow> proc_fs" where
  "chmod md d f F = F\<lparr>proc_files :=
    map (\<lambda>(e, g, md', ops). (e, g, if e = d \<and> g = f then md else md', ops)) (proc_files F)\<rparr>"

definition init_axion_boot :: "proc_fs \<Rightarrow> proc_fs" where
  "init_axion_boot F =
    (let F = chmod mode_0664 ''ax_named_thread_affinity'' ''pid'' F;
         F = chmod mode_0664 ''ax_named_thread_affinity'' ''named_thread_affinity'' F;
         F = chmod mode_0664 ''ax_named_thread_affinity'' ''reset'' F;
         F = chmod mode_0664 ''ax_dragonite'' ''boost'' F;
         F = chmod mode_0664 ''ax_dragonite'' ''kswapd_pin'' F
     in chmod mode_0444 ''ax_dragonite'' ''stats'' F)"

text \<open>
  The contract of \<open>kstrtoint\<close> used below: the decimal rendering of a 32-bit integer is read as that
  integer.
\<close>

definition reads_decimal :: "klib \<Rightarrow> bool" where
  "reads_decimal L \<longleftrightarrow> (\<forall>i. - (2 ^ 31) \<le> i \<and> i < 2 ^ 31 \<longrightarrow> kstrtoint L (dec_int i) 10 = Inr (word_of_int i))"

text \<open>A word of a rule: not empty, no white space, no NUL.\<close>

definition token :: "string \<Rightarrow> bool" where
  "token w \<longleftrightarrow> w \<noteq> [] \<and> (\<forall>c \<in> set w. \<not> isspace c \<and> c \<noteq> NUL)"

text \<open>The handler functions.\<close>

fun axd_write :: "axd_env \<Rightarrow> klib \<Rightarrow> axd_file \<Rightarrow> nat \<Rightarrow> string option \<Rightarrow> axd_driver \<Rightarrow> write_result" where
  "axd_write E L Nta_pid = nta_pid_write L"
| "axd_write E L Nta_affinity = nta_affinity_write E L"
| "axd_write E L Nta_reset = nta_reset_write E L"
| "axd_write E L Dragonite_boost = dragonite_boost_write E L"
| "axd_write E L Dragonite_kswapd = dragonite_kswapd_write E L"

text \<open>
  The operation tables. The macros of the source build a \<open>proc_ops\<close> or, on kernels without it, a
  \<open>file_operations\<close> that names its owner; \<open>has_proc_ops\<close> tells which.
\<close>

definition proc_ops_rw :: "open_fn \<Rightarrow> read_fn \<Rightarrow> axd_file \<Rightarrow> lseek_fn \<Rightarrow> release_fn \<Rightarrow> axd_file proc_ops" where
  "proc_ops_rw opn rd wr lsk rel =
    \<lparr>this_module = False, proc_open = Some opn, proc_read = Some rd, proc_write = Some wr,
     proc_lseek = Some lsk, proc_release = Some rel\<rparr>"

definition proc_ops_ro :: "open_fn \<Rightarrow> read_fn \<Rightarrow> lseek_fn \<Rightarrow> release_fn \<Rightarrow> axd_file proc_ops" where
  "proc_ops_ro opn rd lsk rel =
    \<lparr>this_module = False, proc_open = Some opn, proc_read = Some rd, proc_write = None,
     proc_lseek = Some lsk, proc_release = Some rel\<rparr>"

definition proc_ops_wo :: "axd_file \<Rightarrow> lseek_fn \<Rightarrow> axd_file proc_ops" where
  "proc_ops_wo wr lsk =
    \<lparr>this_module = False, proc_open = None, proc_read = None, proc_write = Some wr,
     proc_lseek = Some lsk, proc_release = None\<rparr>"

definition file_ops_rw :: "open_fn \<Rightarrow> read_fn \<Rightarrow> axd_file \<Rightarrow> lseek_fn \<Rightarrow> release_fn \<Rightarrow> axd_file proc_ops" where
  "file_ops_rw opn rd wr lsk rel =
    \<lparr>this_module = True, proc_open = Some opn, proc_read = Some rd, proc_write = Some wr,
     proc_lseek = Some lsk, proc_release = Some rel\<rparr>"

definition file_ops_ro :: "open_fn \<Rightarrow> read_fn \<Rightarrow> lseek_fn \<Rightarrow> release_fn \<Rightarrow> axd_file proc_ops" where
  "file_ops_ro opn rd lsk rel =
    \<lparr>this_module = True, proc_open = Some opn, proc_read = Some rd, proc_write = None,
     proc_lseek = Some lsk, proc_release = Some rel\<rparr>"

definition file_ops_wo :: "axd_file \<Rightarrow> lseek_fn \<Rightarrow> axd_file proc_ops" where
  "file_ops_wo wr lsk =
    \<lparr>this_module = True, proc_open = None, proc_read = None, proc_write = Some wr,
     proc_lseek = Some lsk, proc_release = None\<rparr>"

definition AXD_PROC_OPS_RW ::
  "bool \<Rightarrow> open_fn \<Rightarrow> read_fn \<Rightarrow> axd_file \<Rightarrow> lseek_fn \<Rightarrow> release_fn \<Rightarrow> axd_file proc_ops" where
  "AXD_PROC_OPS_RW has_proc_ops = (if has_proc_ops then proc_ops_rw else file_ops_rw)"

definition AXD_PROC_OPS_RO ::
  "bool \<Rightarrow> open_fn \<Rightarrow> read_fn \<Rightarrow> lseek_fn \<Rightarrow> release_fn \<Rightarrow> axd_file proc_ops" where
  "AXD_PROC_OPS_RO has_proc_ops = (if has_proc_ops then proc_ops_ro else file_ops_ro)"

definition AXD_PROC_OPS_WO :: "bool \<Rightarrow> axd_file \<Rightarrow> lseek_fn \<Rightarrow> axd_file proc_ops" where
  "AXD_PROC_OPS_WO has_proc_ops = (if has_proc_ops then proc_ops_wo else file_ops_wo)"

definition nta_pid_open :: open_fn where "nta_pid_open = Single_open Nta_pid_show"
definition dragonite_stats_open :: open_fn where "dragonite_stats_open = Single_open Dragonite_stats_show"

definition nta_pid_ops :: "bool \<Rightarrow> axd_file proc_ops" where
  "nta_pid_ops v = AXD_PROC_OPS_RW v nta_pid_open Seq_read Nta_pid Seq_lseek Single_release"

definition nta_affinity_ops :: "bool \<Rightarrow> axd_file proc_ops" where
  "nta_affinity_ops v = AXD_PROC_OPS_WO v Nta_affinity Noop_llseek"

definition nta_reset_ops :: "bool \<Rightarrow> axd_file proc_ops" where
  "nta_reset_ops v = AXD_PROC_OPS_WO v Nta_reset Noop_llseek"

definition dragonite_boost_ops :: "bool \<Rightarrow> axd_file proc_ops" where
  "dragonite_boost_ops v = AXD_PROC_OPS_WO v Dragonite_boost Noop_llseek"

definition dragonite_kswapd_ops :: "bool \<Rightarrow> axd_file proc_ops" where
  "dragonite_kswapd_ops v = AXD_PROC_OPS_WO v Dragonite_kswapd Noop_llseek"

definition dragonite_stats_ops :: "bool \<Rightarrow> axd_file proc_ops" where
  "dragonite_stats_ops v = AXD_PROC_OPS_RO v dragonite_stats_open Seq_read Seq_lseek Single_release"

fun axd_ops_table :: "bool \<Rightarrow> axd_ops \<Rightarrow> axd_file proc_ops" where
  "axd_ops_table v Nta_pid_ops = nta_pid_ops v"
| "axd_ops_table v Nta_affinity_ops = nta_affinity_ops v"
| "axd_ops_table v Nta_reset_ops = nta_reset_ops v"
| "axd_ops_table v Dragonite_boost_ops = dragonite_boost_ops v"
| "axd_ops_table v Dragonite_kswapd_ops = dragonite_kswapd_ops v"
| "axd_ops_table v Dragonite_stats_ops = dragonite_stats_ops v"

lemmas axd_ops_defs = nta_pid_ops_def nta_affinity_ops_def nta_reset_ops_def dragonite_boost_ops_def
  dragonite_kswapd_ops_def dragonite_stats_ops_def AXD_PROC_OPS_RW_def AXD_PROC_OPS_RO_def AXD_PROC_OPS_WO_def
  proc_ops_rw_def proc_ops_ro_def proc_ops_wo_def file_ops_rw_def file_ops_ro_def file_ops_wo_def

text \<open>The operations found under a path, and the file a write to it reaches.\<close>

definition proc_lookup :: "proc_fs \<Rightarrow> string \<Rightarrow> string \<Rightarrow> axd_ops option" where
  "proc_lookup F d f = map_option (\<lambda>(_, _, _, ops). ops) (find (\<lambda>(e, g, _). e = d \<and> g = f) (proc_files F))"

definition axd_file_write ::
  "bool \<Rightarrow> axd_env \<Rightarrow> klib \<Rightarrow> proc_fs \<Rightarrow> string \<Rightarrow> string \<Rightarrow> nat \<Rightarrow> string option \<Rightarrow> axd_driver \<Rightarrow> write_result option" where
  "axd_file_write v E L F d f count ubuf S =
    do {
      ops \<leftarrow> proc_lookup F d f;
      w \<leftarrow> proc_write (axd_ops_table v ops);
      Some (axd_write E L w count ubuf S)
    }"

text \<open>How the write handler of rules reports the result of the driver call.\<close>

definition rule_result :: "nat \<Rightarrow> errno + unit \<Rightarrow> errno + nat" where
  "rule_result n r = (case r of Inl e \<Rightarrow> if e = ENOENT then Inr n else Inl e | Inr _ \<Rightarrow> Inr n)"

text \<open>A write that is handled: it returns, an error has no effect, success reports all bytes written.\<close>

definition write_ok :: "nat \<Rightarrow> axd_driver \<Rightarrow> write_result \<Rightarrow> bool" where
  "write_ok count S w \<longleftrightarrow> (\<exists>r S'. w = Some (r, S') \<and> balanced (kern S) (kern S') \<and>
    (case r of Inl e \<Rightarrow> S' = S | Inr n \<Rightarrow> n = count))"

text \<open>
  Errors. The contract of the kernel's parsers: a number is malformed or out of range. The
  specification: the longest write each file takes, and the errors a write can end in.
\<close>

definition parser_errors :: "klib \<Rightarrow> bool" where
  "parser_errors L \<longleftrightarrow> (\<forall>s b e. kstrtoint L s b = Inl e \<or> kstrtoul L s b = Inl e \<longrightarrow> e = EINVAL \<or> e = ERANGE)"

fun write_limit :: "axd_file \<Rightarrow> nat" where
  "write_limit Nta_pid = 31"
| "write_limit Nta_affinity = 256"
| "write_limit Nta_reset = 31"
| "write_limit Dragonite_boost = 63"
| "write_limit Dragonite_kswapd = 31"

fun write_errors :: "axd_file \<Rightarrow> errno list" where
  "write_errors Nta_pid = [EINVAL, EFAULT, ERANGE]"
| "write_errors Nta_affinity = [EINVAL, ENOMEM, EFAULT, ERANGE, ESRCH]"
| "write_errors Nta_reset = [EINVAL, ENOMEM, ESRCH]"
| "write_errors Dragonite_boost = [EINVAL, EFAULT, ESRCH]"
| "write_errors Dragonite_kswapd = [EINVAL, EFAULT, ERANGE]"

text \<open>A result that reports the errors of its file: \<open>fault\<close> tells whether a fault is one of them.\<close>

definition reports :: "errno list \<Rightarrow> bool \<Rightarrow> write_result \<Rightarrow> bool" where
  "reports es fault w \<longleftrightarrow> (case w of
      Some (Inl e, _) \<Rightarrow> e \<in> set es \<and> (e = EFAULT \<longleftrightarrow> fault)
    | Some (Inr _, _) \<Rightarrow> \<not> fault
    | None \<Rightarrow> False)"

section \<open>Trimming and splitting\<close>

lemma dropWhile_none: "\<forall>c \<in> set s. \<not> P c \<Longrightarrow> dropWhile P s = s"
  by (cases s) auto

lemma strim_token: "\<forall>c \<in> set w. \<not> isspace c \<Longrightarrow> strim w = w"
  by (simp add: strim_def strim_cut_def dropWhile_none)

lemma strim_cut_append:
  assumes "token w"
  shows "strim_cut (s @ w) = s @ w"
proof -
  obtain v c where "w = v @ [c]" and "\<not> isspace c"
    using assms by (metis append_butlast_last_id last_in_set token_def)
  then show ?thesis
    by (simp add: strim_cut_def)
qed

lemma strim_start:
  assumes "token v" and "token w"
  shows "strim (v @ s @ w) = v @ s @ w"
proof -
  obtain c v' where "v = c # v'" and "\<not> isspace c"
    using assms(1) by (cases v) (auto simp: token_def)
  then show ?thesis
    using strim_cut_append [OF assms(2), of "v @ s"] by (simp add: strim_def)
qed

lemma isspace_space [simp]: "isspace (CHR '' '')"
  by (simp add: isspace_def)

lemma isspace_NL [simp]: "isspace (CHR 0x0A)"
  by (simp add: isspace_def)

lemma strim_NL: "\<forall>c \<in> set w. \<not> isspace c \<Longrightarrow> strim (w @ NL) = w"
  by (simp add: strim_def strim_cut_def NL_def dropWhile_none)

lemma split_at_space:
  assumes "token w"
  shows "split_at_char (CHR '' '') (w @ CHR '' '' # s) = Some (w, s)"
proof -
  have "CHR '' '' \<notin> set w"
    using assms by (auto simp: token_def)
  then show ?thesis
    by (simp add: split_at_char_def dropWhile_append takeWhile_append)
qed

lemma split_at_space_none:
  assumes "token w"
  shows "split_at_char (CHR '' '') w = None"
proof -
  have "CHR '' '' \<notin> set w"
    using assms by (auto simp: token_def)
  then have "dropWhile (\<lambda>x. x \<noteq> CHR '' '') w = []"
    by (auto simp: dropWhile_eq_Nil_conv)
  then show ?thesis
    by (simp only: split_at_char_def list.case)
qed

section \<open>Decimal text\<close>

lemma digit_not_space: "is_digit c \<Longrightarrow> \<not> isspace c \<and> c \<noteq> NUL"
  by (auto simp: is_digit_def isspace_def NUL_def)

lemma dec_int_token: "token (dec_int i)"
proof -
  have "token (dec_nat n)" for n
    using dec_nat_digits [of n] dec_nat_nonempty [of n] by (auto simp: token_def digit_not_space)
  moreover have "\<not> isspace (CHR ''-'')" "CHR ''-'' \<noteq> NUL"
    by (simp_all add: isspace_def NUL_def)
  ultimately show ?thesis
    by (simp add: dec_int_def token_def)
qed

lemma dec_int_length:
  assumes "- (2 ^ 31) \<le> i" and "i < 2 ^ 31"
  shows "length (dec_int i) \<le> 11"
proof -
  have "nat (- i) < 10 ^ 10" "nat i < 10 ^ 10"
    using assms by auto
  then show ?thesis
    using dec_nat_length [of "nat (- i)" 10] dec_nat_length [of "nat i" 10] by (simp add: dec_int_def)
qed

section \<open>Parsing an affinity rule\<close>

lemma cstr_no_NUL: "NUL \<notin> set s \<Longrightarrow> cstr s = s"
  by (auto simp: cstr_def takeWhile_eq_all_conv)

lemma strim_trailing:
  assumes "\<forall>c \<in> set ws. isspace c"
  shows "strim (s @ ws) = strim s"
proof -
  have "dropWhile isspace (rev ws @ rev s) = dropWhile isspace (rev s)"
    using assms by (auto simp: dropWhile_append)
  then show ?thesis
    by (simp add: strim_def strim_cut_def)
qed

lemma isspace_NUL [simp]: "\<not> isspace NUL"
  by (simp add: isspace_def NUL_def)

lemma token_facts:
  assumes "token w"
  shows "strim w = w" and "NUL \<notin> set w"
  using assms by (auto simp: token_def intro: strim_token)

lemma nta_tokens_two:
  assumes "token cn" and "token mk" and "\<forall>c \<in> set ws. isspace c"
  shows "nta_tokens L (cn @ '' '' @ mk @ ws) = Some (None, cn, mk)"
proof -
  have "strim (cn @ '' '' @ mk @ ws) = cn @ '' '' @ mk"
    using strim_trailing [OF assms(3), of "cn @ '' '' @ mk"] strim_start [OF assms(1,2), of "'' ''"] by simp
  then show ?thesis
    using assms(1,2) by (simp add: nta_tokens_def split_at_space split_at_space_none token_facts(1))
qed

lemma nta_tokens_three:
  assumes "token cn" and "token mk" and "\<forall>c \<in> set ws. isspace c" and "reads_decimal L" and "0 < sint pid"
  shows "nta_tokens L (dec_int (sint pid) @ '' '' @ cn @ '' '' @ mk @ ws) = Some (Some pid, cn, mk)"
proof -
  let ?d = "dec_int (sint pid)"
  have "strim (?d @ '' '' @ cn @ '' '' @ mk @ ws) = ?d @ '' '' @ cn @ '' '' @ mk"
    using strim_trailing [OF assms(3), of "?d @ '' '' @ cn @ '' '' @ mk"]
      strim_start [OF dec_int_token assms(2), of "sint pid" "'' '' @ cn @ '' ''"] by simp
  moreover have "strim (cn @ '' '' @ mk) = cn @ '' '' @ mk"
    using strim_start [OF assms(1,2), of "'' ''"] by simp
  moreover have "kstrtoint L ?d 10 = Inr pid"
    using assms(4) sint_ge [of pid] sint_lt [of pid] by (simp add: reads_decimal_def)
  ultimately show ?thesis
    using assms(1,2,5) dec_int_token [of "sint pid"]
    by (simp add: nta_tokens_def split_at_space token_facts(1) AXD_RADIX_DEC_def)
qed

lemma set_affinity_kmalloc:
  assumes "affinity_contract accepts E"
  shows "axd_set_affinity E pid (Some cn) (Some m) (kmalloc s) =
    map_option (\<lambda>(r, k). (r, kmalloc k)) (axd_set_affinity E pid (Some cn) (Some m) s)"
proof -
  have "named_threads (kmalloc s) task cn = named_threads s task cn" for task
    by (simp add: named_threads_def)
  moreover have "inc_affinity_set (pin ts m (kmalloc s)) = kmalloc (inc_affinity_set (pin ts m s))" for ts
    by (simp add: inc_affinity_set_def pin_def kmalloc_def cong: if_cong)
  ultimately show ?thesis
    by (simp add: set_affinity_exact [OF assms] Let_def split: option.split)
qed

lemma affinity_write_tokens:
  assumes "affinity_contract accepts E"
    and "nta_tokens L text = Some (rule_pid, cn, mk)"
    and "pid = (case rule_pid of None \<Rightarrow> g_current_target_pid S | Some p \<Rightarrow> p)"
    and "NUL \<notin> set text" and "length text \<le> 256" and "kmalloc_ok E (length text + 1)"
    and "kstrtoul L mk 0 = Inr v" and "v \<noteq> 0"
  shows "nta_affinity_write E L (length text) (Some text) S =
    map_option (\<lambda>(r, k). (rule_result (length text) r, S\<lparr>kern := k\<rparr>))
      (axd_set_affinity E pid (Some cn) (Some v) (kern S))"
  using assms set_affinity_kmalloc [OF assms(1), of pid cn v "kern S"]
  by (cases "axd_set_affinity E pid (Some cn) (Some v) (kern S)")
    (auto simp: nta_affinity_write_def nta_affinity_parse_def nta_affinity_apply_def kbuf_store_def cstr_no_NUL
      parse_mask_def axd_proc_consts rule_result_def Let_def split: sum.split option.split)

section \<open>Every write is handled\<close>

lemma write_okI [intro]:
  "write_ok count S (Some (Inl e, S))" "balanced (kern S) (kern S') \<Longrightarrow> write_ok count S (Some (Inr count, S'))"
  by (auto simp: write_ok_def)

lemma kbuf_store_in_bounds: "count < slots \<Longrightarrow> kbuf_store slots count b = Some (cstr (take count b))"
  by (simp add: kbuf_store_def)

lemma pid_write_ok: "write_ok count S (nta_pid_write L count ubuf S)"
  by (auto simp: nta_pid_write_def nta_pid_parse_def kbuf_store_in_bounds split: option.split sum.split)

lemma affinity_write_ok:
  assumes "kernel_contract accepts E"
  shows "write_ok count S (nta_affinity_write E L count ubuf S)"
proof -
  have call: "write_ok count S (do {
      (ret, k) \<leftarrow> axd_set_affinity E pid (Some cn) (Some v) (kmalloc (kern S));
      let S' = S\<lparr>kern := kfree k\<rparr>;
      Some (case ret of Inl e \<Rightarrow> if e \<noteq> ENOENT then (Inl e, S') else (Inr count, S') | Inr _ \<Rightarrow> (Inr count, S'))})"
    for pid cn v
  proof -
    have move: "axd_set_affinity E pid (Some cn) (Some v) (kmalloc (kern S)) =
        map_option (\<lambda>(r, k). (r, kmalloc k)) (axd_set_affinity E pid (Some cn) (Some v) (kern S))"
      using assms by (intro set_affinity_kmalloc) (auto simp: kernel_contract_def)
    show ?thesis
      by (rule affinity_op.outcome_cases [OF assms, of "(pid, Some cn, Some v)" "kern S"])
        (auto simp: move write_ok_def)
  qed
  show ?thesis
    using call
    by (auto simp: nta_affinity_write_def nta_affinity_parse_def nta_affinity_apply_def kbuf_store_def Let_def split: option.split sum.split)
qed

lemma reset_write_ok:
  assumes "kernel_contract accepts E"
  shows "write_ok count S (nta_reset_write E L count ubuf S)"
proof -
  have call: "write_ok count S (do {
      (ret, k) \<leftarrow> axd_reset_affinity E pid (kern S);
      let S' = S\<lparr>kern := k\<rparr>;
      Some (case ret of Inl e \<Rightarrow> (Inl e, S') | Inr _ \<Rightarrow> (Inr count, S'))})" for pid
    by (rule reset_op.outcome_cases [OF assms, of pid "kern S"]) (auto simp: write_ok_def)
  show ?thesis
    using call
    by (auto simp: nta_reset_write_def nta_reset_parse_def nta_reset_apply_def kbuf_store_def split: option.split)
qed

lemma boost_write_ok:
  assumes "kernel_contract accepts E"
  shows "write_ok count S (dragonite_boost_write E L count ubuf S)"
proof -
  have call: "write_ok count S (do {
      (ret, k) \<leftarrow> axd_set_boost E pid lvl (kern S);
      let S' = S\<lparr>kern := k\<rparr>;
      Some (case ret of Inl e \<Rightarrow> (Inl e, S') | Inr _ \<Rightarrow> (Inr count, S'))})" for pid lvl
    by (rule boost_op.outcome_cases [OF assms, of "(pid, lvl)" "kern S"]) (auto simp: write_ok_def)
  show ?thesis
    using call
    by (auto simp: dragonite_boost_write_def kbuf_store_def split: option.split list.split)
qed

lemma kswapd_write_ok:
  assumes "kernel_contract accepts E"
  shows "write_ok count S (dragonite_kswapd_write E L count ubuf S)"
proof -
  have call: "write_ok count S (do {
      (ret, k) \<leftarrow> axd_pin_kswapd E (Some v) (kern S);
      let S' = S\<lparr>kern := k\<rparr>;
      Some (case ret of Inl e \<Rightarrow> if e \<noteq> ESRCH then (Inl e, S') else (Inr count, S') | Inr _ \<Rightarrow> (Inr count, S'))})" for v
    by (rule kswapd_op.outcome_cases [OF assms, of "Some v" "kern S"]) (auto simp: write_ok_def)
  show ?thesis
    using call
    by (auto simp: dragonite_kswapd_write_def kbuf_store_def split: option.split sum.split)
qed

section \<open>Errors of a write\<close>

lemma parser_errorsD:
  assumes "parser_errors L"
  shows "kstrtoint L s b = Inl e \<Longrightarrow> e = EINVAL \<or> e = ERANGE"
    and "parse_mask L s s' = Inl e \<Longrightarrow> e = EINVAL \<or> e = ERANGE"
  using assms by (auto simp: parser_errors_def parse_mask_def split: sum.splits)

lemma reports_simps [simp]:
  "reports es fault (Some (Inl e, S)) \<longleftrightarrow> e \<in> set es \<and> (e = EFAULT \<longleftrightarrow> fault)"
  "reports es fault (Some (Inr n, S)) \<longleftrightarrow> \<not> fault"
  by (simp_all add: reports_def)

lemma pid_write_reports:
  assumes "parser_errors L" and "count \<le> 31"
  shows "reports (write_errors Nta_pid) (ubuf = None) (nta_pid_write L count ubuf S)"
  using assms(2) parser_errorsD(1) [OF assms(1)]
  by (auto simp: nta_pid_write_def nta_pid_parse_def kbuf_store_in_bounds axd_proc_consts split: option.split sum.split)

lemma set_affinity_reports:
  assumes "affinity_contract accepts E"
  shows "\<exists>r s'. axd_set_affinity E pid (Some cn) (Some m) s = Some (r, s') \<and>
    (\<forall>e. r = Inl e \<longrightarrow> e \<in> {EINVAL, ENOMEM, ESRCH, ENOENT})"
  by (auto simp: set_affinity_exact [OF assms] Let_def split: option.split)

lemma affinity_write_reports:
  assumes "affinity_contract accepts E" and "parser_errors L" and "count \<le> 256"
  shows "reports (write_errors Nta_affinity) (ubuf = None \<and> kmalloc_ok E (count + 1))
    (nta_affinity_write E L count ubuf S)"
proof -
  have call: "reports (write_errors Nta_affinity) False (do {
      (ret, k) \<leftarrow> axd_set_affinity E pid (Some cn) (Some v) s;
      Some (case ret of Inl e \<Rightarrow> if e \<noteq> ENOENT then (Inl e, f k) else (Inr count, f k) | Inr _ \<Rightarrow> (Inr count, f k))})"
    for pid cn v s f
    using set_affinity_reports [OF assms(1), of pid cn v s] by (auto split: sum.split)
  show ?thesis
    using call assms(3)
    by (auto simp: nta_affinity_write_def nta_affinity_parse_def nta_affinity_apply_def kbuf_store_in_bounds axd_proc_consts Let_def
        dest!: parser_errorsD(2) [OF assms(2)] split: option.split sum.split)
qed

lemma reset_write_reports:
  assumes "affinity_contract accepts E" and "count \<le> 31"
  shows "reports (write_errors Nta_reset) False (nta_reset_write E L count ubuf S)"
proof -
  have call: "reports (write_errors Nta_reset) False (do {
      (ret, k) \<leftarrow> axd_reset_affinity E pid (kern S);
      Some (case ret of Inl e \<Rightarrow> (Inl e, f k) | Inr _ \<Rightarrow> (Inr count, f k))})" for pid f
    by (auto simp: reset_affinity_exact [OF assms(1)] Let_def split: option.split)
  show ?thesis
    using call assms(2)
    by (auto simp: nta_reset_write_def nta_reset_parse_def nta_reset_apply_def kbuf_store_in_bounds axd_proc_consts Let_def split: option.split)
qed

lemma boost_write_reports:
  assumes "nice_contract E" and "count \<le> 63"
  shows "reports (write_errors Dragonite_boost) (ubuf = None) (dragonite_boost_write E L count ubuf S)"
proof -
  have call: "reports (write_errors Dragonite_boost) False (do {
      (ret, k) \<leftarrow> axd_set_boost E pid lvl (kern S);
      Some (case ret of Inl e \<Rightarrow> (Inl e, f k) | Inr _ \<Rightarrow> (Inr count, f k))})" for pid lvl f
    using set_boost_exact [OF assms(1), of pid lvl "kern S"] by (auto split: option.splits if_splits)
  show ?thesis
    using call assms(2)
    by (auto simp: dragonite_boost_write_def kbuf_store_in_bounds axd_proc_consts Let_def split: option.split list.split)
qed

lemma kswapd_write_reports:
  assumes "affinity_contract accepts E" and "parser_errors L" and "count \<le> 31"
  shows "reports (write_errors Dragonite_kswapd) (ubuf = None) (dragonite_kswapd_write E L count ubuf S)"
proof -
  have call: "reports (write_errors Dragonite_kswapd) False (do {
      (ret, k) \<leftarrow> axd_pin_kswapd E (Some v) (kern S);
      Some (case ret of Inl e \<Rightarrow> if e \<noteq> ESRCH then (Inl e, f k) else (Inr count, f k) | Inr _ \<Rightarrow> (Inr count, f k))})" for v f
    by (auto simp: pin_kswapd_gen [OF assms(1)] Let_def)
  show ?thesis
    using call assms(3)
    by (auto simp: dragonite_kswapd_write_def kbuf_store_in_bounds axd_proc_consts Let_def
        dest!: parser_errorsD(2) [OF assms(2)] split: option.split sum.split)
qed

section \<open>The proc tree\<close>

lemma remove_create [simp]:
  "remove_proc_subtree d (proc_create_in mk d f md ops F) = remove_proc_subtree d F"
  "d \<noteq> e \<Longrightarrow> remove_proc_subtree d (proc_create_in mk e f md ops F) = proc_create_in mk e f md ops (remove_proc_subtree d F)"
  by (simp_all add: remove_proc_subtree_def proc_create_in_def)

lemma remove_mkdir [simp]:
  "remove_proc_subtree d (proc_mkdir mk d F) = remove_proc_subtree d F"
  "d \<noteq> e \<Longrightarrow> remove_proc_subtree d (proc_mkdir mk e F) = proc_mkdir mk e (remove_proc_subtree d F)"
  by (simp_all add: remove_proc_subtree_def proc_mkdir_def)

lemma proc_mkdir_fails: "\<not> mk d \<Longrightarrow> proc_mkdir mk d F = F"
  by (simp add: proc_mkdir_def)

lemma remove_fresh:
  assumes "d \<notin> set (proc_dirs F)" and "\<forall>(e, f, md) \<in> set (proc_files F). e \<noteq> d"
  shows "remove_proc_subtree d F = F"
proof -
  have "filter (\<lambda>(e, f, md). e \<noteq> d) (proc_files F) = proc_files F"
    using assms(2) by (auto simp: filter_id_conv)
  then show ?thesis
    using assms(1) by (simp add: remove_proc_subtree_def)
qed

section \<open>A parser for worked examples\<close>

definition example_kstrtoint :: "string \<Rightarrow> nat \<Rightarrow> errno + s32" where
  "example_kstrtoint s base =
    (case s of
       [] \<Rightarrow> Inl EINVAL
     | c # cs \<Rightarrow>
         if c = CHR ''-'' then Inr (word_of_int (- int (val_dec 0 cs)))
         else if list_all is_digit s then Inr (word_of_int (int (val_dec 0 s))) else Inl EINVAL)"

definition example_klib :: klib where
  "example_klib = \<lparr>kstrtoint = example_kstrtoint,
    kstrtoul = (\<lambda>s base. if s \<noteq> [] \<and> list_all is_digit s then Inr (of_nat (val_dec 0 s)) else Inl EINVAL),
    sscanf_d_d = (\<lambda>s. case example_kstrtoint s 10 of Inl _ \<Rightarrow> [] | Inr p \<Rightarrow> [p])\<rparr>"

definition example_driver :: axd_driver where
  "example_driver = \<lparr>kern = example_axd_kern, g_current_target_pid = 42, ax_nta_dir = True, ax_dragonite_dir = True\<rparr>"

lemma minus_not_digit: "\<not> is_digit (CHR ''-'')"
  by (simp add: is_digit_def)

lemma example_reads_decimal: "reads_decimal example_klib"
proof -
  have "example_kstrtoint (dec_int i) 10 = Inr (word_of_int i)" for i
  proof (cases "i < 0")
    case True
    then show ?thesis
      by (simp add: dec_int_def example_kstrtoint_def val_dec_dec_nat)
  next
    case False
    obtain c cs where c: "dec_nat (nat i) = c # cs"
      using dec_nat_nonempty by (cases "dec_nat (nat i)") auto
    then have "list_all is_digit (c # cs)" "c \<noteq> CHR ''-''"
      using dec_nat_digits [of "nat i"] minus_not_digit by (auto simp: list_all_iff)
    then show ?thesis
      using False val_dec_dec_nat [of "nat i"] by (simp add: dec_int_def c example_kstrtoint_def)
  qed
  then show ?thesis
    by (simp add: reads_decimal_def example_klib_def)
qed

text \<open>
  Every path of a loaded driver leads to its handler: the five writable files to the five handlers,
  the statistics file to none, and after unloading none leads into the driver.
\<close>

lemma axd_paths_routed:
  "case axd_init (\<lambda>_. True) (\<lambda>_ _. True) S \<lparr>proc_dirs = [], proc_files = []\<rparr> of (r, S', F) \<Rightarrow>
    axd_file_write v E L F ''ax_named_thread_affinity'' ''pid'' n u T = Some (nta_pid_write L n u T) \<and>
    axd_file_write v E L F ''ax_named_thread_affinity'' ''named_thread_affinity'' n u T = Some (nta_affinity_write E L n u T) \<and>
    axd_file_write v E L F ''ax_named_thread_affinity'' ''reset'' n u T = Some (nta_reset_write E L n u T) \<and>
    axd_file_write v E L F ''ax_dragonite'' ''boost'' n u T = Some (dragonite_boost_write E L n u T) \<and>
    axd_file_write v E L F ''ax_dragonite'' ''kswapd_pin'' n u T = Some (dragonite_kswapd_write E L n u T) \<and>
    axd_file_write v E L F ''ax_dragonite'' ''stats'' n u T = None \<and>
    axd_file_write v E L (axd_exit S' F) d f n u T = None"
  by (simp add: axd_init_def axd_proc_init_def axd_exit_def axd_proc_exit_def remove_proc_subtree_def proc_mkdir_def
      proc_create_in_def axd_file_write_def proc_lookup_def AXD_PROC_NTA_DIR_def AXD_PROC_DRAGONITE_DIR_def
      axd_names axd_ops_defs Let_def)

text \<open>
  Unloading the driver removes exactly what loading created. When no entry of the driver's
  names existed before, the proc tree after unloading is the one before loading, whichever
  directories and files the kernel agreed to create; loading returns 0 with all counters zero.
\<close>

lemma axd_exit_restores:
  assumes "AXD_PROC_NTA_DIR \<notin> set (proc_dirs F)" and "AXD_PROC_DRAGONITE_DIR \<notin> set (proc_dirs F)"
    and "\<forall>(d, f, md) \<in> set (proc_files F). d \<noteq> AXD_PROC_NTA_DIR \<and> d \<noteq> AXD_PROC_DRAGONITE_DIR"
  shows "case axd_init mkd mkf S F of (r, S', F') \<Rightarrow>
    r = 0 \<and> axd_exit S' F' = F \<and> tasks (kern S') = tasks (kern S) \<and>
    g_axd_stats (kern S') = \<lparr>affinity_set_count = 0, boost_set_count = 0, reset_count = 0, kswapd_pin_count = 0\<rparr>"
proof -
  have "AXD_PROC_NTA_DIR \<noteq> AXD_PROC_DRAGONITE_DIR"
    by (simp add: AXD_PROC_NTA_DIR_def AXD_PROC_DRAGONITE_DIR_def)
  moreover have "remove_proc_subtree AXD_PROC_NTA_DIR F = F" "remove_proc_subtree AXD_PROC_DRAGONITE_DIR F = F"
    using assms by (auto intro!: remove_fresh)
  ultimately show ?thesis
    by (cases "mkd AXD_PROC_NTA_DIR"; cases "mkd AXD_PROC_DRAGONITE_DIR")
      (simp_all add: axd_init_def axd_exit_def axd_proc_init_def axd_proc_exit_def Let_def proc_mkdir_fails)
qed

section \<open>Properties\<close>

text \<open>
  C8: every write to every proc file is handled, whatever its length, its bytes and the answers of
  the number parsers: no buffer is overrun, an error leaves the driver and the kernel untouched,
  success reports all bytes as written, and locks, allocations and reference counts are balanced.
\<close>

theorem proc_writes_handled:
  assumes "kernel_contract accepts E"
  shows "\<exists>r S'. axd_write E L f count ubuf S = Some (r, S') \<and> balanced (kern S) (kern S') \<and>
    (case r of Inl e \<Rightarrow> S' = S | Inr n \<Rightarrow> n = count)"
proof -
  have "write_ok count S (axd_write E L f count ubuf S)"
    using assms
    by (cases f) (simp_all add: pid_write_ok affinity_write_ok reset_write_ok boost_write_ok kswapd_write_ok)
  then show ?thesis
    by (simp add: write_ok_def)
qed

theorem proc_writes_handled_witness:
  "\<exists>r S'. axd_write example_axd_env example_klib Nta_affinity 300 (Some (replicate 300 (CHR ''A''))) example_driver =
      Some (r, S') \<and> (case r of Inl e \<Rightarrow> S' = example_driver | Inr n \<Rightarrow> n = 300)"
  using proc_writes_handled [OF example_contract, of example_klib Nta_affinity 300
      "Some (replicate 300 (CHR ''A''))" example_driver] by blast

text \<open>
  C9: an affinity rule written as text reaches the driver as meant. A line of a positive pid, a
  thread name and a mask, or of a name and a mask for the target pid, separated by blanks and with
  any white space after it, calls \<open>axd_set_affinity\<close> with exactly that pid, name and mask; its result
  is reported, a name without a thread counting as success.
\<close>

theorem affinity_rule_applied:
  assumes "affinity_contract accepts E" and "reads_decimal L"
    and "token cn" and "token mk" and "kstrtoul L mk 0 = Inr v" and "v \<noteq> 0"
    and "\<forall>c \<in> set ws. isspace c"
    and "pre = dec_int (sint pid) @ '' '' \<and> 0 < sint pid \<or> pre = [] \<and> pid = g_current_target_pid S"
    and "length (pre @ cn @ '' '' @ mk @ ws) = n" and "n \<le> 256" and "kmalloc_ok E (n + 1)"
  shows "nta_affinity_write E L n (Some (pre @ cn @ '' '' @ mk @ ws)) S =
    map_option (\<lambda>(r, k). (rule_result n r, S\<lparr>kern := k\<rparr>)) (axd_set_affinity E pid (Some cn) (Some v) (kern S))"
proof -
  let ?text = "pre @ cn @ '' '' @ mk @ ws"
  have "NUL \<notin> set ws"
    using assms(7) by auto
  then have "NUL \<notin> set ?text"
    using assms(8) token_facts(2) [OF assms(3)] token_facts(2) [OF assms(4)] token_facts(2) [OF dec_int_token]
    by (auto simp: NUL_def)
  moreover define rule_pid where "rule_pid = (if pre = [] then None else Some pid)"
  moreover have "nta_tokens L ?text = Some (rule_pid, cn, mk)"
    using assms(8) nta_tokens_three [OF assms(3,4,7,2), of pid] nta_tokens_two [OF assms(3,4,7), of L]
    by (auto simp: rule_pid_def)
  moreover have "pid = (case rule_pid of None \<Rightarrow> g_current_target_pid S | Some p \<Rightarrow> p)"
    using assms(8) by (auto simp: rule_pid_def)
  ultimately show ?thesis
    using affinity_write_tokens [OF assms(1), of L ?text rule_pid cn mk pid S v] assms(5,6,9-11) by simp
qed

theorem affinity_rule_applied_witness:
  "nta_affinity_write example_axd_env example_klib 16 (Some (''RenderThread 12'' @ NL)) example_driver =
    map_option (\<lambda>(r, k). (rule_result 16 r, example_driver\<lparr>kern := k\<rparr>))
      (axd_set_affinity example_axd_env 42 (Some ''RenderThread'') (Some 12) (kern example_driver))"
proof -
  have "token ''RenderThread''" "token ''12''"
    by (simp_all add: token_def isspace_def NUL_def)
  moreover have "kstrtoul example_klib ''12'' 0 = Inr 12"
    by (simp add: example_klib_def is_digit_def digit_val_def)
  moreover have "g_current_target_pid example_driver = 42" "kmalloc_ok example_axd_env 17"
    by (simp_all add: example_driver_def example_axd_env_def)
  ultimately show ?thesis
    using affinity_rule_applied [OF example_affinity_contract example_reads_decimal, of "''RenderThread''" "''12''" 12 NL
        "[]" 42 example_driver 16]
    by (simp add: NL_def)
qed

text \<open>
  C34: the target pid file reads back what was written. The text the file shows for a pid, written
  to the file, is accepted, stores that pid and is shown again.
\<close>

theorem nta_pid_roundtrip:
  assumes "reads_decimal L"
  shows "let text = nta_pid_show T; S' = S\<lparr>g_current_target_pid := g_current_target_pid T\<rparr>
    in nta_pid_write L (length text) (Some text) S = Some (Inr (length text), S') \<and> nta_pid_show S' = text"
proof -
  let ?i = "sint (g_current_target_pid T)"
  have r: "- (2 ^ 31) \<le> ?i" "?i < 2 ^ 31"
    using sint_ge [of "g_current_target_pid T"] sint_lt [of "g_current_target_pid T"] by simp_all
  then have "kstrtoint L (dec_int ?i) 10 = Inr (g_current_target_pid T)"
    using assms by (simp add: reads_decimal_def)
  moreover have "strim (dec_int ?i @ NL) = dec_int ?i"
    using dec_int_token [of ?i] by (intro strim_NL) (simp add: token_def)
  moreover have "cstr (dec_int ?i @ NL) = dec_int ?i @ NL"
    using token_facts(2) [OF dec_int_token, of ?i] by (intro cstr_no_NUL) (simp add: NL_def NUL_def)
  ultimately show ?thesis
    using dec_int_length [OF r]
    by (simp add: nta_pid_write_def nta_pid_parse_def nta_pid_show_def kbuf_store_def axd_proc_consts Let_def NL_def)
qed

theorem nta_pid_roundtrip_witness:
  "let text = nta_pid_show example_driver
   in nta_pid_write example_klib (length text) (Some text) (example_driver\<lparr>g_current_target_pid := 0\<rparr>) =
      Some (Inr (length text), example_driver)"
  using nta_pid_roundtrip [OF example_reads_decimal, of example_driver "example_driver\<lparr>g_current_target_pid := 0\<rparr>"]
  by (simp add: example_driver_def Let_def)

text \<open>
  C21: the errors of the proc files. A write longer than the file takes is refused with EINVAL. Any
  other write returns, and ends in success or in an error of its file's list: a rule for a thread
  that does not exist and a mask no swap thread takes are not errors. A fault while copying is
  reported as EFAULT and nothing else is, but a reset ignores it, and a rule needs its buffer first.
\<close>

theorem proc_write_errors:
  assumes "kernel_contract accepts E" and "parser_errors L"
  shows "if count > write_limit f then axd_write E L f count ubuf S = Some (Inl EINVAL, S)
    else reports (write_errors f)
      (ubuf = None \<and> f \<noteq> Nta_reset \<and> (f = Nta_affinity \<longrightarrow> kmalloc_ok E (count + 1)))
      (axd_write E L f count ubuf S)"
proof (cases "count > write_limit f")
  case True
  then show ?thesis
    by (cases f) (simp_all add: nta_pid_write_def nta_pid_parse_def nta_affinity_write_def nta_affinity_parse_def
        nta_reset_write_def nta_reset_parse_def
        dragonite_boost_write_def dragonite_kswapd_write_def axd_proc_consts)
next
  case False
  have E: "affinity_contract accepts E" "nice_contract E"
    using assms(1) by (simp_all add: kernel_contract_def)
  show ?thesis
    using False pid_write_reports [OF assms(2)] affinity_write_reports [OF E(1) assms(2)]
      reset_write_reports [OF E(1)] boost_write_reports [OF E(2)] kswapd_write_reports [OF E(1) assms(2)]
    by (cases f) (simp_all del: write_errors.simps)
qed

theorem proc_write_errors_witness:
  "reports [EINVAL, EFAULT, ESRCH] True (axd_write example_axd_env example_klib Dragonite_boost 4 None example_driver)"
proof -
  have "parser_errors example_klib"
    by (auto simp: parser_errors_def example_klib_def example_kstrtoint_def split: list.splits if_splits)
  from proc_write_errors [OF example_contract this, where f = Dragonite_boost and count = 4 and ubuf = None
      and S = example_driver] show ?thesis
    by simp
qed

end
