(* ===== verification/Dragonite_Lock.thy ===== *)
theory Dragonite_Lock
  imports Dragonite_Proc
begin

text \<open>
  Several processes on the proc files of the AxDragonite driver at once. Every thread runs the
  handlers of \<^verbatim>\<open>ax_dragonite_proc.c\<close> as a sequence of small steps with a program counter: the part of
  the handler before \<open>mutex_lock\<close>, the access to the target pid inside \<open>g_proc_lock\<close>, the unlock,
  and the rest; one print at a time for the statistics, which take no lock. Shown: a handler that is
  not disturbed does what the handler of the sequential model does; at most one thread is inside the
  lock and a store never overlaps a locked access; no schedule deadlocks; and whenever no handler
  is running, allocations, RCU sections and reference counts are those of the start.
\<close>

section \<open>Definitions\<close>

text \<open>What a process asks for.\<close>

datatype request =
    Write_file axd_file nat "string option"
  | Read_pid
  | Read_stats

text \<open>What a handler does with the target pid once it has read it.\<close>

datatype pending =
    Rule nat string string
  | Reset nat
  | Show

datatype outcome = Wrote "errno + nat" | Shown string

text \<open>
  Program counters: before a handler, at the lock of a store, inside it before and after the store,
  the same for a load, the rest of the handler with a pid, the next print of the statistics with the
  text so far, and the end.
\<close>

datatype pc =
    Idle
  | Begin request
  | Lock_store s32 nat
  | Store s32 nat
  | Unlock_store nat
  | Lock_load pending
  | Load pending
  | Unlock_load pending s32
  | Apply pending s32
  | Stats nat string
  | Done outcome

text \<open>One step of thread \<open>t\<close> on the driver and the holder of the mutex; \<^const>\<open>None\<close>: it has to wait.\<close>

type_synonym shared = "axd_driver \<times> nat option"

definition wrote :: "nat option \<Rightarrow> write_result \<Rightarrow> (pc \<times> shared) option" where
  "wrote m w = map_option (\<lambda>(r, S). (Done (Wrote r), S, m)) w"

fun begin_request :: "axd_env \<Rightarrow> klib \<Rightarrow> request \<Rightarrow> axd_driver \<Rightarrow> nat option \<Rightarrow> (pc \<times> shared) option" where
  "begin_request E L (Write_file Nta_pid n u) S m =
    map_option (\<lambda>r. (case r of Inl e \<Rightarrow> Done (Wrote (Inl e)) | Inr pid \<Rightarrow> Lock_store pid n, S, m))
      (nta_pid_parse L n u)"
| "begin_request E L (Write_file Nta_affinity n u) S m =
    map_option (\<lambda>(r, S). (case r of
        Inl e \<Rightarrow> Done (Wrote (Inl e))
      | Inr (Some pid, c, k) \<Rightarrow> Apply (Rule n c k) pid
      | Inr (None, c, k) \<Rightarrow> Lock_load (Rule n c k), S, m))
      (nta_affinity_parse E L n u S)"
| "begin_request E L (Write_file Nta_reset n u) S m =
    map_option (\<lambda>r. (case r of
        Inl e \<Rightarrow> Done (Wrote (Inl e))
      | Inr pid \<Rightarrow> if sint pid \<le> 1 then Lock_load (Reset n) else Apply (Reset n) pid, S, m))
      (nta_reset_parse L n u)"
| "begin_request E L (Write_file Dragonite_boost n u) S m = wrote m (dragonite_boost_write E L n u S)"
| "begin_request E L (Write_file Dragonite_kswapd n u) S m = wrote m (dragonite_kswapd_write E L n u S)"
| "begin_request E L Read_pid S m = Some (Lock_load Show, S, m)"
| "begin_request E L Read_stats S m = Some (Stats 0 [], S, m)"

fun apply_pending :: "axd_env \<Rightarrow> klib \<Rightarrow> pending \<Rightarrow> s32 \<Rightarrow> axd_driver \<Rightarrow> nat option \<Rightarrow> (pc \<times> shared) option" where
  "apply_pending E L (Rule n c k) pid S m = wrote m (nta_affinity_apply E L n pid c k S)"
| "apply_pending E L (Reset n) pid S m = wrote m (nta_reset_apply E n pid S)"
| "apply_pending E L Show pid S m = Some (Done (Shown (dec_int (sint pid) @ NL)), S, m)"

fun advance :: "axd_env \<Rightarrow> klib \<Rightarrow> nat \<Rightarrow> pc \<Rightarrow> axd_driver \<Rightarrow> nat option \<Rightarrow> (pc \<times> shared) option" where
  "advance E L t (Begin req) S m = begin_request E L req S m"
| "advance E L t (Lock_store v n) S m = (if m = None then Some (Store v n, S, Some t) else None)"
| "advance E L t (Store v n) S m = Some (Unlock_store n, S\<lparr>g_current_target_pid := v\<rparr>, m)"
| "advance E L t (Unlock_store n) S m = Some (Done (Wrote (Inr n)), S, None)"
| "advance E L t (Lock_load p) S m = (if m = None then Some (Load p, S, Some t) else None)"
| "advance E L t (Load p) S m = Some (Unlock_load p (g_current_target_pid S), S, m)"
| "advance E L t (Unlock_load p v) S m = Some (Apply p v, S, None)"
| "advance E L t (Apply p v) S m = apply_pending E L p v S m"
| "advance E L t (Stats i txt) S m =
    Some (if i < length stats_lines then Stats (Suc i) (txt @ (stats_lines ! i) S) else Done (Shown txt), S, m)"
| "advance E L t _ S m = None"

text \<open>All threads: one makes a step, enters a handler or returns from one.\<close>

record lock_sys =
  drv :: axd_driver
  g_proc_lock :: "nat option"
  pcs :: "pc list"

inductive lock_step :: "axd_env \<Rightarrow> klib \<Rightarrow> nat \<Rightarrow> lock_sys \<Rightarrow> lock_sys \<Rightarrow> bool" for E L where
  enter: "t < length (pcs s) \<Longrightarrow> pcs s ! t = Idle \<Longrightarrow>
    lock_step E L t s (s\<lparr>pcs := (pcs s)[t := Begin req]\<rparr>)"
| run: "t < length (pcs s) \<Longrightarrow> advance E L t (pcs s ! t) (drv s) (g_proc_lock s) = Some (pc', S', m') \<Longrightarrow>
    lock_step E L t s \<lparr>drv = S', g_proc_lock = m', pcs = (pcs s)[t := pc']\<rparr>"
| leave: "t < length (pcs s) \<Longrightarrow> pcs s ! t = Done r \<Longrightarrow>
    lock_step E L t s (s\<lparr>pcs := (pcs s)[t := Idle]\<rparr>)"

inductive lock_reachable :: "axd_env \<Rightarrow> klib \<Rightarrow> axd_driver \<Rightarrow> lock_sys \<Rightarrow> bool" for E L S where
  init: "lock_reachable E L S \<lparr>drv = S, g_proc_lock = None, pcs = replicate n Idle\<rparr>"
| step: "lock_reachable E L S s \<Longrightarrow> lock_step E L t s s' \<Longrightarrow> lock_reachable E L S s'"

text \<open>A thread alone, until its handler is done or the fuel is used up.\<close>

fun run_alone :: "axd_env \<Rightarrow> klib \<Rightarrow> nat \<Rightarrow> nat \<Rightarrow> pc \<times> shared \<Rightarrow> (pc \<times> shared) option" where
  "run_alone E L t 0 c = Some c"
| "run_alone E L t (Suc n) (pc, S, m) =
    (case pc of
       Done r \<Rightarrow> Some (pc, S, m)
     | _ \<Rightarrow> do { c \<leftarrow> advance E L t pc S m; run_alone E L t n c })"

text \<open>The handlers of the sequential model.\<close>

fun handle :: "axd_env \<Rightarrow> klib \<Rightarrow> request \<Rightarrow> axd_driver \<Rightarrow> (outcome \<times> axd_driver) option" where
  "handle E L (Write_file f n u) S = map_option (\<lambda>(r, S'). (Wrote r, S')) (axd_write E L f n u S)"
| "handle E L Read_pid S = Some (Shown (nta_pid_show S), S)"
| "handle E L Read_stats S = Some (Shown (dragonite_stats_show S), S)"

text \<open>Counters inside the mutex, and those of a thread that owns a rule buffer.\<close>

fun critical :: "pc \<Rightarrow> bool" where
  "critical (Store v n) = True"
| "critical (Unlock_store n) = True"
| "critical (Load p) = True"
| "critical (Unlock_load p v) = True"
| "critical _ = False"

fun owns_buffer :: "pc \<Rightarrow> bool" where
  "owns_buffer (Lock_load (Rule n c k)) = True"
| "owns_buffer (Load (Rule n c k)) = True"
| "owns_buffer (Unlock_load (Rule n c k) v) = True"
| "owns_buffer (Apply (Rule n c k) v) = True"
| "owns_buffer _ = False"

text \<open>Waiting for the mutex, and the next access to the target pid.\<close>

fun waiting :: "pc \<Rightarrow> bool" where
  "waiting (Lock_store v n) = True"
| "waiting (Lock_load p) = True"
| "waiting _ = False"

fun stores_pid :: "pc \<Rightarrow> bool" where
  "stores_pid (Store v n) = True"
| "stores_pid _ = False"

fun loads_pid :: "pc \<Rightarrow> bool" where
  "loads_pid (Load p) = True"
| "loads_pid (Stats i txt) = (i = 1)"
| "loads_pid _ = False"

section \<open>One thread alone\<close>

lemma stats_length [simp]: "length stats_lines = 6"
  by (simp add: stats_lines_def)

lemma run_alone_write_done: "run_alone E L t n (Done r, S, m) = Some (Done r, S, m)"
  by (cases n) simp_all

lemma run_alone_wrote:
  "do { c \<leftarrow> wrote m w; run_alone E L t n c } = map_option (\<lambda>(r, S). (Done (Wrote r), S, m)) w"
  by (cases w) (auto simp: wrote_def run_alone_write_done)

lemma numeral_unroll: "(10 :: nat) = Suc (Suc (Suc (Suc (Suc (Suc (Suc (Suc (Suc (Suc 0)))))))))"
  by simp

lemma run_alone_handles:
  "run_alone E L t 10 (Begin req, S, None) = map_option (\<lambda>(r, S'). (Done r, S', None)) (handle E L req S)"
proof (cases req)
  case (Write_file f n u)
  show ?thesis
  proof (cases f)
    case Nta_pid
    then show ?thesis
      by (cases "nta_pid_parse L n u")
        (auto simp: Write_file numeral_unroll nta_pid_write_def run_alone_write_done split: sum.splits)
  next
    case Nta_affinity
    then show ?thesis
      by (cases "nta_affinity_parse E L n u S")
        (auto simp: Write_file numeral_unroll nta_affinity_write_def run_alone_write_done run_alone_wrote
          option.map_comp comp_def split_def split: sum.splits option.splits)
  next
    case Nta_reset
    then show ?thesis
      by (cases "nta_reset_parse L n u")
        (auto simp: Write_file numeral_unroll nta_reset_write_def run_alone_write_done run_alone_wrote
          option.map_comp comp_def split_def split: sum.splits)
  next
    case Dragonite_boost
    then show ?thesis
      by (simp add: Write_file numeral_unroll run_alone_wrote option.map_comp comp_def split_def)
  next
    case Dragonite_kswapd
    then show ?thesis
      by (simp add: Write_file numeral_unroll run_alone_wrote option.map_comp comp_def split_def)
  qed
next
  case Read_pid
  then show ?thesis by (simp add: numeral_unroll nta_pid_show_def)
next
  case Read_stats
  then show ?thesis by (simp add: numeral_unroll dragonite_stats_show_def stats_lines_def)
qed

section \<open>What a step does to the kernel's resources\<close>

text \<open>
  The resources after a step: RCU nesting and reference counts as before, and one allocation more or
  less exactly when the thread takes or gives back its buffer.
\<close>

definition step_balanced :: "bool \<Rightarrow> axd_kern \<Rightarrow> bool \<Rightarrow> axd_kern \<Rightarrow> bool" where
  "step_balanced own k own' k' \<longleftrightarrow> rcu_nesting k' = rcu_nesting k \<and> (\<forall>t. usage (tasks k' t) = usage (tasks k t)) \<and>
    live_allocs k' + of_bool own = live_allocs k + of_bool own'"

lemma step_balanced_refl [simp]: "step_balanced b k b k"
  by (simp add: step_balanced_def)

lemma balanced_step: "balanced k k' \<Longrightarrow> step_balanced b k b k'"
  by (auto simp: step_balanced_def balanced_def)

lemma kmalloc_step: "step_balanced False k True (kmalloc k)"
  by (simp add: step_balanced_def kmalloc_def)

lemma kfree_step: "balanced k k' \<Longrightarrow> step_balanced True k False (kfree k')"
  by (auto simp: step_balanced_def balanced_def kfree_def)

lemma affinity_parse_step:
  assumes "nta_affinity_parse E L n u S = Some (r, S')"
  shows "step_balanced False (kern S) (\<not> isl r) (kern S')"
  using assms by (auto simp: nta_affinity_parse_def Let_def kmalloc_step kbuf_store_def split: if_splits option.splits)

lemma affinity_apply_step:
  assumes "kernel_contract accepts E" and "nta_affinity_apply E L n pid c k S = Some (r, S')"
  shows "step_balanced True (kern S) False (kern S')"
proof -
  have call: "step_balanced True (kern S) False (kfree s')"
    if "axd_set_affinity E pid (Some c) (Some v) (kern S) = Some (e, s')" for v e s'
    by (rule affinity_op.outcome_cases [OF assms(1), of "(pid, Some c, Some v)" "kern S"])
      (use that in \<open>auto intro: kfree_step simp: balanced_def\<close>)
  show ?thesis
  proof (cases "parse_mask L k k")
    case (Inl e)
    then show ?thesis
      using assms(2) kfree_step [of "kern S" "kern S"] by (auto simp: nta_affinity_apply_def balanced_def)
  next
    case (Inr v)
    obtain e s' where "axd_set_affinity E pid (Some c) (Some v) (kern S) = Some (e, s')"
      using affinity_op.outcome [OF assms(1), of "(pid, Some c, Some v)" "kern S"] by auto
    with Inr show ?thesis
      using assms(2) call [of v e s'] kfree_step [of "kern S" "kern S"]
      by (cases e) (auto simp: nta_affinity_apply_def balanced_def Let_def split: if_splits)
  qed
qed

lemma reset_apply_step:
  assumes "kernel_contract accepts E" and "nta_reset_apply E n pid S = Some (r, S')"
  shows "balanced (kern S) (kern S')"
  by (rule reset_op.outcome_cases [OF assms(1), of pid "kern S"])
    (use assms(2) in \<open>auto simp: nta_reset_apply_def balanced_def\<close>)

lemma write_ok_balanced: "write_ok n S w \<Longrightarrow> w = Some (r, S') \<Longrightarrow> balanced (kern S) (kern S')"
  by (simp add: write_ok_def)

lemma advance_step:
  assumes "kernel_contract accepts E" and "advance E L t pc S m = Some (pc', S', m')"
  shows "step_balanced (owns_buffer pc) (kern S) (owns_buffer pc') (kern S')"
proof (cases pc)
  case (Begin req)
  show ?thesis
  proof (cases req)
    case (Write_file f n u)
    show ?thesis
    proof (cases f)
      case Nta_pid
      then show ?thesis
        using assms(2) Begin Write_file by (cases "nta_pid_parse L n u") (auto split: sum.split_asm)
    next
      case Nta_reset
      then show ?thesis
        using assms(2) Begin Write_file by (cases "nta_reset_parse L n u") (auto split: sum.split_asm if_split_asm)
    next
      case Nta_affinity
      then obtain r where r: "nta_affinity_parse E L n u S = Some (r, S')"
        and pc': "pc' = (case r of Inl e \<Rightarrow> Done (Wrote (Inl e)) | Inr (Some pid, c, k) \<Rightarrow> Apply (Rule n c k) pid
          | Inr (None, c, k) \<Rightarrow> Lock_load (Rule n c k))"
        using assms(2) Begin Write_file by auto
      have "owns_buffer pc' = (\<not> isl r)"
        by (auto simp: pc' split: sum.splits option.splits)
      then show ?thesis
        using affinity_parse_step [OF r] by (simp add: Begin)
    qed (use assms Begin Write_file write_ok_balanced [OF boost_write_ok [OF assms(1)]]
        write_ok_balanced [OF kswapd_write_ok [OF assms(1)]] in
        \<open>auto simp: wrote_def intro!: balanced_step\<close>)
  qed (use assms Begin in auto)
next
  case (Apply p v)
  then show ?thesis
    using assms(2) balanced_step [OF reset_apply_step [OF assms(1)]] affinity_apply_step [OF assms(1)]
    by (cases p) (auto simp: wrote_def)
next
  case (Lock_load p)
  then show ?thesis using assms(2) by (cases p) (auto split: if_splits)
next
  case (Load p)
  then show ?thesis using assms(2) by (cases p) auto
next
  case (Unlock_load p v)
  then show ?thesis using assms(2) by (cases p) auto
qed (use assms(2) in \<open>auto split: if_splits\<close>)

section \<open>The invariant of all threads\<close>

lemma advance_lock:
  assumes "advance E L t pc S m = Some (pc', S', m')"
  shows "if waiting pc then m = None \<and> m' = Some t \<and> critical pc'
    else if critical pc then m' = (if critical pc' then m else None)
    else m' = m \<and> \<not> critical pc'"
proof (cases pc)
  case (Begin req)
  show ?thesis
  proof (cases req)
    case (Write_file f n u)
    then show ?thesis
      using assms Begin
      by (cases f; cases "nta_pid_parse L n u"; cases "nta_reset_parse L n u"; cases "nta_affinity_parse E L n u S")
        (auto simp: wrote_def split: sum.split_asm if_split_asm option.split_asm)
  qed (use assms Begin in auto)
next
  case (Apply p v)
  then show ?thesis using assms by (cases p) (auto simp: wrote_def)
qed (use assms in \<open>auto split: if_splits\<close>)

text \<open>The holder of the mutex is the one thread inside it.\<close>

definition lock_owner :: "lock_sys \<Rightarrow> bool" where
  "lock_owner s \<longleftrightarrow> (\<forall>i. g_proc_lock s = Some i \<longleftrightarrow> i < length (pcs s) \<and> critical (pcs s ! i))"

text \<open>And the resources are those of the start, plus one buffer for each thread that owns one.\<close>

definition lock_inv :: "axd_kern \<Rightarrow> lock_sys \<Rightarrow> bool" where
  "lock_inv k s \<longleftrightarrow> lock_owner s \<and>
    rcu_nesting (kern (drv s)) = rcu_nesting k \<and> (\<forall>t. usage (tasks (kern (drv s)) t) = usage (tasks k t)) \<and>
    live_allocs (kern (drv s)) = live_allocs k + int (length (filter owns_buffer (pcs s)))"

lemma filter_length_update:
  "t < length xs \<Longrightarrow> int (length (filter P (xs[t := y]))) + of_bool (P (xs ! t)) =
    int (length (filter P xs)) + of_bool (P y)"
proof (induction xs arbitrary: t)
  case (Cons x xs)
  show ?case
  proof (cases t)
    case (Suc j)
    then show ?thesis using Cons.IH [of j] Cons.prems by simp
  qed simp
qed simp

lemma lock_step_owner:
  assumes "lock_step E L t s s'" and "lock_owner s"
  shows "lock_owner s'"
  using assms(1)
proof cases
  case (enter req)
  then show ?thesis
    using assms(2) by (auto simp: lock_owner_def nth_list_update)
next
  case (leave r)
  then show ?thesis
    using assms(2) by (auto simp: lock_owner_def nth_list_update)
next
  case (run pc' S' m')
  have lock: "g_proc_lock s = Some i \<longleftrightarrow> i < length (pcs s) \<and> critical (pcs s ! i)" for i
    using assms(2) by (simp add: lock_owner_def)
  have "m' = Some i \<longleftrightarrow> i < length (pcs s) \<and> critical ((pcs s)[t := pc'] ! i)" for i
    using advance_lock [OF run(3)] lock [of i] lock [of t] run(2)
    by (cases "i = t"; cases "g_proc_lock s") (simp_all split: if_splits)
  then show ?thesis
    by (simp add: run(1) lock_owner_def)
qed

lemma lock_step_inv:
  assumes "kernel_contract accepts E" and "lock_step E L t s s'" and "lock_inv k s"
  shows "lock_inv k s'"
proof -
  have "lock_owner s'"
    using lock_step_owner [OF assms(2)] assms(3) by (simp add: lock_inv_def)
  with assms(2) show ?thesis
  proof cases
    case (enter req)
    then show ?thesis
      using \<open>lock_owner s'\<close> assms(3) filter_length_update [of t "pcs s" owns_buffer "Begin req"]
      by (simp add: lock_inv_def)
  next
    case (leave r)
    then show ?thesis
      using \<open>lock_owner s'\<close> assms(3) filter_length_update [of t "pcs s" owns_buffer Idle]
      by (simp add: lock_inv_def)
  next
    case (run pc' S' m')
    then show ?thesis
      using \<open>lock_owner s'\<close> assms(3) filter_length_update [OF run(2), of owns_buffer pc']
        advance_step [OF assms(1) run(3)]
      by (simp add: lock_inv_def step_balanced_def)
  qed
qed

lemma lock_reachable_owner: "lock_reachable E L S s \<Longrightarrow> lock_owner s"
proof (induction rule: lock_reachable.induct)
  case (init n)
  then show ?case by (simp add: lock_owner_def)
next
  case (step s t s')
  then show ?case using lock_step_owner by blast
qed

lemma lock_reachable_inv:
  assumes "kernel_contract accepts E" and "lock_reachable E L S s"
  shows "lock_inv (kern S) s"
  using assms(2)
proof (induction rule: lock_reachable.induct)
  case (init n)
  then show ?case by (simp add: lock_inv_def lock_owner_def)
next
  case (step s t s')
  then show ?case using lock_step_inv [OF assms(1)] by blast
qed

section \<open>Progress\<close>

text \<open>An upper bound of the steps a thread still takes until it is idle again.\<close>

fun work :: "pc \<Rightarrow> nat" where
  "work Idle = 0"
| "work (Done r) = 1"
| "work (Apply p v) = 2"
| "work (Unlock_load p v) = 3"
| "work (Load p) = 4"
| "work (Lock_load p) = 5"
| "work (Unlock_store n) = 2"
| "work (Store v n) = 3"
| "work (Lock_store v n) = 4"
| "work (Stats i txt) = 2 + (6 - i)"
| "work (Begin req) = 9"

lemma work_pos: "pc \<noteq> Idle \<Longrightarrow> 0 < work pc"
  by (cases pc) auto

lemma advance_work:
  assumes "advance E L t pc S m = Some (pc', S', m')"
  shows "work pc' < work pc"
proof (cases pc)
  case (Begin req)
  show ?thesis
  proof (cases req)
    case (Write_file f n u)
    then show ?thesis
      using assms Begin
      by (cases f; cases "nta_pid_parse L n u"; cases "nta_reset_parse L n u"; cases "nta_affinity_parse E L n u S")
        (auto simp: wrote_def split: sum.split_asm if_split_asm option.split_asm)
  qed (use assms Begin in auto)
next
  case (Apply p v)
  then show ?thesis using assms by (cases p) (auto simp: wrote_def)
qed (use assms in \<open>auto split: if_splits\<close>)

lemma parse_returns:
  "nta_pid_parse L n u \<noteq> None" "nta_reset_parse L n u \<noteq> None" "nta_affinity_parse E L n u S \<noteq> None"
  by (auto simp: nta_pid_parse_def nta_reset_parse_def nta_affinity_parse_def kbuf_store_def Let_def split: option.splits)

lemma write_ok_returns: "write_ok n S w \<Longrightarrow> w \<noteq> None"
  by (auto simp: write_ok_def)

lemma apply_returns:
  assumes "kernel_contract accepts E"
  shows "nta_affinity_apply E L n pid c k S \<noteq> None" and "nta_reset_apply E n pid S \<noteq> None"
proof -
  have "axd_set_affinity E pid (Some c) (Some v) (kern S) \<noteq> None" for v
    using affinity_op.returns [OF assms, of "(pid, Some c, Some v)" "kern S"] by simp
  then show "nta_affinity_apply E L n pid c k S \<noteq> None"
    by (simp add: nta_affinity_apply_def bind_eq_None_conv Let_def split_def del: not_None_eq split: sum.split)
  show "nta_reset_apply E n pid S \<noteq> None"
    using reset_op.returns [OF assms, of pid "kern S"]
    by (simp add: nta_reset_apply_def bind_eq_None_conv Let_def split_def)
qed

lemma advance_enabled:
  assumes "kernel_contract accepts E" and "pc \<noteq> Idle" and "\<And>r. pc \<noteq> Done r" and "waiting pc \<Longrightarrow> m = None"
  shows "advance E L t pc S m \<noteq> None"
proof (cases pc)
  case (Begin req)
  show ?thesis
  proof (cases req)
    case (Write_file f n u)
    then show ?thesis
      using Begin parse_returns(1,2) [of L n u] parse_returns(3) [of E L n u S]
        write_ok_returns [OF boost_write_ok [OF assms(1)], of L n u S]
        write_ok_returns [OF kswapd_write_ok [OF assms(1)], of L n u S]
      by (cases f) (simp_all add: wrote_def)
  qed (use Begin in simp_all)
next
  case (Apply p v)
  then show ?thesis
    using apply_returns [OF assms(1)] by (cases p) (simp_all add: wrote_def)
qed (use assms in simp_all)

text \<open>Some busy thread can always go on: the one that waits, or the one it waits for.\<close>

lemma busy_step:
  assumes "kernel_contract accepts E" and "lock_inv k s" and "i < length (pcs s)" and "pcs s ! i \<noteq> Idle"
  shows "\<exists>t s'. lock_step E L t s s' \<and> t < length (pcs s) \<and> (\<exists>pc'. pcs s' = (pcs s)[t := pc'] \<and> work pc' < work (pcs s ! t))"
proof -
  have go: ?thesis if t: "t < length (pcs s)" "pcs s ! t \<noteq> Idle" "waiting (pcs s ! t) \<Longrightarrow> g_proc_lock s = None" for t
  proof (cases "\<exists>r. pcs s ! t = Done r")
    case True
    then obtain r where r: "pcs s ! t = Done r" by blast
    then show ?thesis
      using lock_step.leave [OF t(1) r] t(1) by fastforce
  next
    case False
    then obtain pc' S' m' where a: "advance E L t (pcs s ! t) (drv s) (g_proc_lock s) = Some (pc', S', m')"
      using advance_enabled [OF assms(1) t(2) _ t(3)] by (metis option.exhaust prod_cases3)
    then show ?thesis
      using lock_step.run [OF t(1) a] t(1) advance_work [OF a] by fastforce
  qed
  show ?thesis
  proof (cases "g_proc_lock s")
    case None
    then show ?thesis using go [OF assms(3,4)] by simp
  next
    case (Some j)
    then have "j < length (pcs s)" "critical (pcs s ! j)"
      using assms(2) unfolding lock_inv_def lock_owner_def by blast+
    moreover from this(2) have "pcs s ! j \<noteq> Idle" "\<not> waiting (pcs s ! j)"
      by (cases "pcs s ! j"; simp)+
    ultimately show ?thesis using go by blast
  qed
qed

lemma sum_list_update_less:
  fixes f :: "'a \<Rightarrow> nat"
  shows "t < length xs \<Longrightarrow> f y < f (xs ! t) \<Longrightarrow> sum_list (map f (xs[t := y])) < sum_list (map f xs)"
proof (induction xs arbitrary: t)
  case (Cons x xs)
  then show ?case by (cases t) auto
qed simp

lemma completes:
  assumes "kernel_contract accepts E" and "lock_inv k s"
  shows "\<exists>s'. (\<lambda>a b. \<exists>t. lock_step E L t a b)\<^sup>*\<^sup>* s s' \<and> pcs s' = replicate (length (pcs s)) Idle"
  using assms(2)
proof (induction "sum_list (map work (pcs s))" arbitrary: s rule: less_induct)
  case less
  show ?case
  proof (cases "\<exists>i < length (pcs s). pcs s ! i \<noteq> Idle")
    case False
    then have "pcs s = replicate (length (pcs s)) Idle"
      by (intro replicate_eqI) (auto simp: in_set_conv_nth)
    then show ?thesis by blast
  next
    case True
    then obtain t s' pc' where s': "lock_step E L t s s'" "t < length (pcs s)" "pcs s' = (pcs s)[t := pc']"
        "work pc' < work (pcs s ! t)"
      using busy_step [OF assms(1) less.prems] by blast
    have "lock_inv k s'"
      using lock_step_inv [OF assms(1) s'(1) less.prems] .
    moreover have "sum_list (map work (pcs s')) < sum_list (map work (pcs s))"
      unfolding s'(3) using s'(2,4) by (rule sum_list_update_less)
    ultimately obtain s'' where "(\<lambda>a b. \<exists>t. lock_step E L t a b)\<^sup>*\<^sup>* s' s''"
        "pcs s'' = replicate (length (pcs s')) Idle"
      using less.hyps by blast
    then show ?thesis
      using s'(1,3) by (metis (mono_tags, lifting) converse_rtranclp_into_rtranclp length_list_update)
  qed
qed

section \<open>Schedules\<close>

text \<open>A schedule: a thread enters a handler with a request, or makes its next step.\<close>

fun schedule :: "axd_env \<Rightarrow> klib \<Rightarrow> (nat \<times> request option) list \<Rightarrow> lock_sys \<Rightarrow> lock_sys option" where
  "schedule E L [] s = Some s"
| "schedule E L ((t, Some req) # xs) s =
    (if t < length (pcs s) \<and> pcs s ! t = Idle then schedule E L xs (s\<lparr>pcs := (pcs s)[t := Begin req]\<rparr>) else None)"
| "schedule E L ((t, None) # xs) s =
    (if t < length (pcs s) then
       (case advance E L t (pcs s ! t) (drv s) (g_proc_lock s) of
          None \<Rightarrow> None
        | Some (pc', S', m') \<Rightarrow> schedule E L xs \<lparr>drv = S', g_proc_lock = m', pcs = (pcs s)[t := pc']\<rparr>)
     else None)"

lemma schedule_reachable:
  "lock_reachable E L S s \<Longrightarrow> schedule E L xs s = Some s' \<Longrightarrow> lock_reachable E L S s'"
proof (induction E L xs s rule: schedule.induct)
  case (2 E L t req xs s)
  then show ?case
    by (auto intro: lock_reachable.step lock_step.enter split: if_splits)
next
  case (3 E L t xs s)
  then obtain pc' S' m' where t: "t < length (pcs s)"
    and a: "advance E L t (pcs s ! t) (drv s) (g_proc_lock s) = Some (pc', S', m')"
    by (auto split: if_splits option.splits)
  then show ?case
    using 3 lock_reachable.step [OF 3(2) lock_step.run [OF t a]] by simp
qed simp

text \<open>One thread writes a pid while another prints the statistics: both are at the variable.\<close>

definition example_race :: lock_sys where
  "example_race = \<lparr>drv = example_driver, g_proc_lock = Some 0,
    pcs = [Store 7 1, Stats 1 (''ax_dragonite version: '' @ AXD_VERSION @ NL)]\<rparr>"

lemma example_race_reachable: "lock_reachable example_axd_env example_klib example_driver example_race"
proof -
  let ?s = "\<lparr>drv = example_driver, g_proc_lock = None, pcs = replicate 2 Idle\<rparr>"
  have "nta_pid_parse example_klib 1 (Some ''7'') = Some (Inr 7)"
    by code_simp
  then have "schedule example_axd_env example_klib
      [(0, Some (Write_file Nta_pid 1 (Some ''7''))), (0, None), (0, None), (1, Some Read_stats), (1, None), (1, None)] ?s =
    Some example_race"
    by (simp add: numeral_2_eq_2 example_race_def stats_lines_def)
  then show ?thesis
    using schedule_reachable lock_reachable.init by blast
qed

text \<open>The print of the target pid in the statistics can overlap a store.\<close>

lemma stats_read_races:
  "\<exists>s i j. lock_reachable example_axd_env example_klib example_driver s \<and> i \<noteq> j \<and>
    i < length (pcs s) \<and> j < length (pcs s) \<and> stores_pid (pcs s ! i) \<and> loads_pid (pcs s ! j)"
  by (intro exI [of _ example_race] exI [of _ 0] exI [of _ 1])
    (simp add: example_race_reachable, simp add: example_race_def)

section \<open>Properties\<close>

text \<open>
  C15: the mutex protects the target pid. On every state reachable by any number of processes, two
  threads are never inside the mutex at once; while one is about to store the pid, no other thread
  is about to store it, and the only one that can be about to read it is the statistics file, which
  takes no lock.
\<close>

theorem proc_lock_excludes:
  assumes "lock_reachable E L S s" and "i < length (pcs s)" and "j < length (pcs s)" and "i \<noteq> j"
  shows "\<not> (critical (pcs s ! i) \<and> critical (pcs s ! j)) \<and>
    (stores_pid (pcs s ! i) \<longrightarrow> \<not> stores_pid (pcs s ! j) \<and>
      (loads_pid (pcs s ! j) \<longrightarrow> (\<exists>txt. pcs s ! j = Stats 1 txt)))"
proof -
  have excl: "\<not> (critical (pcs s ! i) \<and> critical (pcs s ! j))"
    using lock_reachable_owner [OF assms(1)] assms(2-4) by (metis lock_owner_def option.inject)
  have "stores_pid pc \<Longrightarrow> critical pc" and "loads_pid pc \<Longrightarrow> critical pc \<or> (\<exists>txt. pc = Stats 1 txt)" for pc
    by (cases pc; simp)+
  with excl show ?thesis by blast
qed

theorem proc_lock_excludes_witness:
  "\<not> (critical (pcs example_race ! 0) \<and> critical (pcs example_race ! 1)) \<and> \<not> stores_pid (pcs example_race ! 1)"
  using proc_lock_excludes [OF example_race_reachable, of 0 1] by (simp add: example_race_def)

text \<open>
  C14: no schedule of the processes gets stuck, and none leaks. From every reachable state the threads
  can run on until all are idle, and then the RCU sections, the allocations and the reference counts
  of all tasks are those of the start.
\<close>

theorem requests_complete:
  assumes "kernel_contract accepts E" and "lock_reachable E L S s"
  shows "\<exists>s'. (\<lambda>a b. \<exists>t. lock_step E L t a b)\<^sup>*\<^sup>* s s' \<and> pcs s' = replicate (length (pcs s)) Idle \<and>
    g_proc_lock s' = None \<and> balanced (kern S) (kern (drv s'))"
proof -
  obtain s' where s': "(\<lambda>a b. \<exists>t. lock_step E L t a b)\<^sup>*\<^sup>* s s'" "pcs s' = replicate (length (pcs s)) Idle"
    using completes [OF assms(1) lock_reachable_inv [OF assms]] by blast
  have "lock_reachable E L S s'"
    using s'(1) assms(2) by (induction rule: rtranclp_induct) (auto intro: lock_reachable.step)
  from lock_reachable_inv [OF assms(1) this] have "lock_inv (kern S) s'" .
  then have "balanced (kern S) (kern (drv s'))" "\<forall>i. g_proc_lock s' \<noteq> Some i"
    by (auto simp: lock_inv_def lock_owner_def balanced_def s'(2))
  with s' show ?thesis by auto
qed

theorem requests_complete_witness:
  "\<exists>s'. (\<lambda>a b. \<exists>t. lock_step example_axd_env example_klib t a b)\<^sup>*\<^sup>* example_race s' \<and> pcs s' = [Idle, Idle] \<and>
    balanced (kern example_driver) (kern (drv s'))"
  using requests_complete [OF example_contract example_race_reachable]
  by (auto simp: example_race_def numeral_2_eq_2)

end
