(* ===== verification/Ram_Plus_Swaps.thy ===== *)
theory Ram_Plus_Swaps
  imports Axion_Prelude
begin

text \<open>
  The swap table of the kernel as RAM Plus reads it, in two programs: the set-up tool
  (\<^verbatim>\<open>ax_ram_plus_setup.cpp\<close>, stream extraction) and the hooks of the low-memory killer
  (\<^verbatim>\<open>ram_plus_lmkd_hooks.cpp\<close>, \<open>fscanf\<close>), with the correction of the free swap space the latter
  makes. Text of \<^verbatim>\<open>/proc/swaps\<close> is an argument, \<^const>\<open>None\<close> when the file cannot be read. Shown:
  both readers recover a table of rows from its text however the columns are padded, and the
  corrected free space is a bounded share of the real one.
\<close>

section \<open>Definitions\<close>

record SwapEntry =
  sw_path :: string
  sw_size_kb :: u64
  sw_priority :: s32

definition kSwapPath :: string where
  "kSwapPath = ''/data/system/axion_ram_plus/swapfile''"

text \<open>White space of the C locale, and the extraction of words and decimal numbers from a stream.\<close>

definition is_ws :: "char \<Rightarrow> bool" where
  "is_ws c \<longleftrightarrow> (of_char c :: nat) \<in> {9, 10, 11, 12, 13, 32}"

definition extract_word :: "string \<Rightarrow> (string \<times> string) option" where
  "extract_word s =
    (let s = dropWhile is_ws s; w = takeWhile (\<lambda>c. \<not> is_ws c) s
     in if w = [] then None else Some (w, drop (length w) s))"

definition extract_number :: "string \<Rightarrow> (int \<times> string) option" where
  "extract_number s =
    (let s = dropWhile is_ws s;
         (neg, s) = (case s of
             [] \<Rightarrow> (False, [])
           | c # cs \<Rightarrow> if c = CHR ''-'' then (True, cs) else if c = CHR ''+'' then (False, cs) else (False, s));
         ds = takeWhile is_digit s
     in if ds = [] then None
        else Some (if neg then - int (val_dec 0 ds) else int (val_dec 0 ds), drop (length ds) s))"

definition extract_u64 :: "string \<Rightarrow> (u64 \<times> string) option" where
  "extract_u64 s =
    (case extract_number s of
       None \<Rightarrow> None
     | Some (i, r) \<Rightarrow> if \<bar>i\<bar> < 2 ^ 64 then Some (word_of_int i, r) else None)"

definition extract_int :: "string \<Rightarrow> (s32 \<times> string) option" where
  "extract_int s =
    (case extract_number s of
       None \<Rightarrow> None
     | Some (i, r) \<Rightarrow> if - (2 ^ 31) \<le> i \<and> i < 2 ^ 31 then Some (word_of_int i, r) else None)"

text \<open>\<open>stream >> path >> type >> size_kb >> used_kb >> priority\<close>.\<close>

definition extract_row :: "string \<Rightarrow> (SwapEntry \<times> string) option" where
  "extract_row s =
    do {
      (path, s) \<leftarrow> extract_word s;
      (type, s) \<leftarrow> extract_word s;
      (size_kb, s) \<leftarrow> extract_u64 s;
      (used_kb, s) \<leftarrow> extract_u64 s;
      (priority, s) \<leftarrow> extract_int s;
      Some (\<lparr>sw_path = path, sw_size_kb = size_kb, sw_priority = priority\<rparr>, s)
    }"

lemma extract_word_shorter: "extract_word s = Some (w, r) \<Longrightarrow> length r < length s"
proof -
  assume e: "extract_word s = Some (w, r)"
  have "length (dropWhile is_ws s) \<le> length s"
    by (rule length_dropWhile_le)
  moreover have "r = drop (length w) (dropWhile is_ws s)" "w = takeWhile (\<lambda>c. \<not> is_ws c) (dropWhile is_ws s)" "w \<noteq> []"
    using e by (auto simp: extract_word_def Let_def split: if_splits)
  ultimately show ?thesis
    by (metis diff_less dual_order.strict_trans2 length_drop length_greater_0_conv length_takeWhile_le list.size(3)
        order_less_le_trans takeWhile.simps(1))
qed

lemma extract_number_shorter:
  assumes "extract_number s = Some (i, r)"
  shows "length r \<le> length s"
proof -
  have "length (dropWhile is_ws s) \<le> length s"
    by (rule length_dropWhile_le)
  then show ?thesis
    using assms by (auto simp: extract_number_def Let_def split: if_splits list.splits)
qed

lemma extract_u64_shorter: "extract_u64 s = Some (v, r) \<Longrightarrow> length r \<le> length s"
  using extract_number_shorter by (fastforce simp: extract_u64_def split: option.splits if_splits)

lemma extract_int_shorter: "extract_int s = Some (v, r) \<Longrightarrow> length r \<le> length s"
  using extract_number_shorter by (fastforce simp: extract_int_def split: option.splits if_splits)

lemma extract_row_shorter:
  assumes "extract_row s = Some (e, r)"
  shows "length r < length s"
proof -
  obtain p s1 t s2 a s3 b s4 c where "extract_word s = Some (p, s1)" "extract_word s1 = Some (t, s2)"
    "extract_u64 s2 = Some (a, s3)" "extract_u64 s3 = Some (b, s4)" "extract_int s4 = Some (c, r)"
    using assms by (auto simp: extract_row_def bind_eq_Some_conv)
  then show ?thesis
    using extract_word_shorter [of s p s1] extract_word_shorter [of s1 t s2] extract_u64_shorter [of s2 a s3]
      extract_u64_shorter [of s3 b s4] extract_int_shorter [of s4 c r] by linarith
qed

function read_swap_rows :: "string \<Rightarrow> SwapEntry list" where
  "read_swap_rows s = (case extract_row s of None \<Rightarrow> [] | Some (e, r) \<Rightarrow> e # read_swap_rows r)"
  by pat_completeness auto
termination
  by (relation "measure length") (auto dest: extract_row_shorter)

declare read_swap_rows.simps [simp del]

text \<open>The first line is skipped.\<close>

definition after_line :: "string \<Rightarrow> string" where
  "after_line s = drop 1 (dropWhile (\<lambda>c. c \<noteq> CHR 0x0A) s)"

definition ReadSwapEntries :: "string option \<Rightarrow> SwapEntry list option" where
  "ReadSwapEntries contents = map_option (\<lambda>c. read_swap_rows (after_line c)) contents"

definition starts_with :: "string \<Rightarrow> string \<Rightarrow> bool" where
  "starts_with p s \<longleftrightarrow> take (length p) s = p"

definition is_zram :: "SwapEntry \<Rightarrow> bool" where
  "is_zram e \<longleftrightarrow> starts_with ''/dev/block/zram'' (sw_path e) \<or> starts_with ''/dev/zram'' (sw_path e)"

definition FindLowestZramPriority :: "SwapEntry list \<Rightarrow> s32 option" where
  "FindLowestZramPriority entries =
    foldl (\<lambda>priority e.
      if \<not> is_zram e then priority
      else Some (case priority of
          None \<Rightarrow> sw_priority e
        | Some p \<Rightarrow> if sint (sw_priority e) < sint p then sw_priority e else p)) None entries"

definition FindRamPlusSwap :: "string option \<Rightarrow> SwapEntry option" where
  "FindRamPlusSwap contents =
    (case ReadSwapEntries contents of
       None \<Rightarrow> None
     | Some entries \<Rightarrow> List.find (\<lambda>e. sw_path e = kSwapPath) entries)"

text \<open>
  The reader of the low-memory killer. Values are integers; a number that does not fit its C type,
  for which \<open>fscanf\<close> has no defined result, makes the whole result \<^const>\<open>None\<close>.
\<close>

definition fits64 :: "int \<Rightarrow> bool" where
  "fits64 i \<longleftrightarrow> - (2 ^ 63) \<le> i \<and> i < 2 ^ 63"

definition fits32 :: "int \<Rightarrow> bool" where
  "fits32 i \<longleftrightarrow> - (2 ^ 31) \<le> i \<and> i < 2 ^ 31"

text \<open>The width-limited word conversions of \<open>fscanf\<close>.\<close>

definition extract_word_max :: "nat \<Rightarrow> string \<Rightarrow> (string \<times> string) option" where
  "extract_word_max n s =
    (let s = dropWhile is_ws s; w = take n (takeWhile (\<lambda>c. \<not> is_ws c) s)
     in if w = [] then None else Some (w, drop (length w) s))"

datatype lmkd_scan = Scan_stop | Scan_undefined | Scan_row string int string

definition scan_row :: "string \<Rightarrow> lmkd_scan" where
  "scan_row s =
    (case extract_word_max 255 s of None \<Rightarrow> Scan_stop | Some (path, s) \<Rightarrow>
     case extract_word_max 31 s of None \<Rightarrow> Scan_stop | Some (type, s) \<Rightarrow>
     case extract_number s of None \<Rightarrow> Scan_stop | Some (size_kb, s) \<Rightarrow>
     if \<not> fits64 size_kb then Scan_undefined else
     case extract_number s of None \<Rightarrow> Scan_stop | Some (used_kb, s) \<Rightarrow>
     if \<not> fits64 used_kb then Scan_undefined else
     case extract_number s of None \<Rightarrow> Scan_stop | Some (priority, s) \<Rightarrow>
     if \<not> fits32 priority then Scan_undefined else Scan_row path size_kb s)"

lemma extract_word_max_shorter:
  assumes "extract_word_max n s = Some (w, r)"
  shows "length r < length s"
proof -
  have le: "length (dropWhile is_ws s) \<le> length s"
    by (rule length_dropWhile_le)
  have w: "r = drop (length w) (dropWhile is_ws s)" "w = take n (takeWhile (\<lambda>c. \<not> is_ws c) (dropWhile is_ws s))" "w \<noteq> []"
    using assms by (auto simp: extract_word_max_def Let_def split: if_splits)
  moreover have "dropWhile is_ws s \<noteq> []"
    using w(2,3) by (metis takeWhile.simps(1) take_Nil)
  ultimately have "length r < length (dropWhile is_ws s)"
    by simp
  with le show ?thesis by linarith
qed

lemma scan_row_shorter:
  assumes "scan_row s = Scan_row p k r"
  shows "length r < length s"
proof -
  obtain p s1 t s2 a s3 b s4 c where "extract_word_max 255 s = Some (p, s1)" "extract_word_max 31 s1 = Some (t, s2)"
    "extract_number s2 = Some (a, s3)" "extract_number s3 = Some (b, s4)" "extract_number s4 = Some (c, r)"
    using assms by (auto simp: scan_row_def split: option.splits prod.splits if_splits)
  then show ?thesis
    using extract_word_max_shorter [of 255 s p s1] extract_word_max_shorter [of 31 s1 t s2]
      extract_number_shorter [of s2 a s3] extract_number_shorter [of s3 b s4] extract_number_shorter [of s4 c r]
    by linarith
qed

function lmkd_rows :: "string \<Rightarrow> int option" where
  "lmkd_rows s =
    (case scan_row s of
       Scan_stop \<Rightarrow> Some 0
     | Scan_undefined \<Rightarrow> None
     | Scan_row path size_kb r \<Rightarrow> if path = kSwapPath then Some (max 0 size_kb) else lmkd_rows r)"
  by pat_completeness auto
termination
  by (relation "measure length") (auto dest: scan_row_shorter)

declare lmkd_rows.simps [simp del]

text \<open>\<open>fgets\<close> into a buffer of \<open>n\<close> bytes: what is left of the stream, \<^const>\<open>None\<close> at its end.\<close>

definition fgets_rest :: "nat \<Rightarrow> string \<Rightarrow> string option" where
  "fgets_rest n s =
    (if s = [] then None
     else Some (drop (min (n - 1) (length (takeWhile (\<lambda>c. c \<noteq> CHR 0x0A) s) + 1)) s))"

definition ReadRamPlusSwapKb :: "string option \<Rightarrow> int option" where
  "ReadRamPlusSwapKb contents =
    (case contents of
       None \<Rightarrow> Some 0
     | Some s \<Rightarrow> (case fgets_rest 512 s of None \<Rightarrow> Some 0 | Some r \<Rightarrow> lmkd_rows r))"

text \<open>The hook that refreshes the global \<open>gRamPlusSwapKb\<close>; it returns true and the new value.\<close>

definition lmkd_update_props_hook :: "string option \<Rightarrow> (bool \<times> int) option" where
  "lmkd_update_props_hook contents = map_option (\<lambda>kb. (True, kb)) (ReadRamPlusSwapKb contents)"

text \<open>The hooks RAM Plus leaves empty: the arguments are the process and three numbers.\<close>

definition lmkd_init_hook :: bool where
  "lmkd_init_hook = True"

definition lmkd_free_memory_before_kill_hook :: "'proc \<Rightarrow> int \<Rightarrow> int \<Rightarrow> int \<Rightarrow> int" where
  "lmkd_free_memory_before_kill_hook p a b c = 0"

definition lmkd_no_kill_candidates_hook :: unit where
  "lmkd_no_kill_candidates_hook = ()"

text \<open>
  The correction of the free swap space, in 64-bit signed arithmetic; \<^const>\<open>None\<close> when an
  intermediate result does not fit. \<open>sdiv\<close> on the positive divisor is division towards zero.
\<close>

definition c_div :: "int \<Rightarrow> int \<Rightarrow> int" where
  "c_div a b = sgn a * (\<bar>a\<bar> div b)"

definition lmkd_adjust_free_swap_hook :: "int \<Rightarrow> int \<Rightarrow> int \<Rightarrow> int \<Rightarrow> int \<Rightarrow> int \<Rightarrow> int option" where
  "lmkd_adjust_free_swap_hook gRamPlusSwapKb free_swap easy_available compression_ratio
      compression_ratio_div adjusted_free_swap =
    (let disk_total = max 0 gRamPlusSwapKb in
     if disk_total = 0 \<or> compression_ratio \<le> 0 \<or> compression_ratio_div \<le> 0 then Some adjusted_free_swap
     else
       let disk_free = min free_swap disk_total in
       if \<not> fits64 (free_swap - disk_total) then None
       else
         let zram_free = max 0 (free_swap - disk_total) in
         if \<not> fits64 (easy_available * compression_ratio) then None
         else
           let r = disk_free + min zram_free (c_div (easy_available * compression_ratio) compression_ratio_div) in
           if fits64 r then Some r else None)"

text \<open>
  A row of the table and its text. The columns are the path, the type, the size, the used size and
  the priority, and the row ends with a line break. What separates two columns is part of the row:
  any non-empty run of blanks and tabs, since the kernel pads the path with blanks and the other
  columns with one or two tabs.
\<close>

record swap_row =
  row_entry :: SwapEntry
  row_type :: string
  row_used :: nat
  row_gaps :: "string \<times> string \<times> string \<times> string"

definition show_row :: "swap_row \<Rightarrow> string" where
  "show_row x = (case row_gaps x of (g1, g2, g3, g4) \<Rightarrow>
    sw_path (row_entry x) @ g1 @ row_type x @ g2 @ dec_nat (unat (sw_size_kb (row_entry x))) @ g3 @
    dec_nat (row_used x) @ g4 @ dec_int (sint (sw_priority (row_entry x))) @ NL)"

definition plain :: "string \<Rightarrow> bool" where
  "plain w \<longleftrightarrow> w \<noteq> [] \<and> (\<forall>c \<in> set w. (of_char c :: nat) \<notin> {9, 10, 11, 12, 13, 32})"

definition gap :: "string \<Rightarrow> bool" where
  "gap g \<longleftrightarrow> g \<noteq> [] \<and> (\<forall>c \<in> set g. c = CHR '' '' \<or> c = CHR 0x09)"

text \<open>Rows both readers can hold: names within the buffers of \<open>fscanf\<close>, sizes within its integers.\<close>

definition row_ok :: "swap_row \<Rightarrow> bool" where
  "row_ok x \<longleftrightarrow> plain (sw_path (row_entry x)) \<and> length (sw_path (row_entry x)) \<le> 255 \<and>
    plain (row_type x) \<and> length (row_type x) \<le> 31 \<and>
    unat (sw_size_kb (row_entry x)) < 2 ^ 63 \<and> row_used x < 2 ^ 63 \<and>
    (case row_gaps x of (g1, g2, g3, g4) \<Rightarrow> gap g1 \<and> gap g2 \<and> gap g3 \<and> gap g4)"

section \<open>Reading a printed table\<close>

text \<open>The readers' white space covers the gaps and the line break.\<close>

definition ws_run :: "string \<Rightarrow> bool" where
  "ws_run g \<longleftrightarrow> g \<noteq> [] \<and> (\<forall>c \<in> set g. is_ws c)"

lemma is_ws_sep [simp]: "is_ws (CHR '' '')" "is_ws (CHR 0x09)" "is_ws (CHR 0x0A)"
  by (simp_all add: is_ws_def)

lemma ws_runs: "gap g \<Longrightarrow> ws_run g" "ws_run NL"
proof -
  assume "gap g"
  then have "g \<noteq> []" and "is_ws c" if "c \<in> set g" for c
    using that is_ws_sep(1,2) unfolding gap_def by metis+
  then show "ws_run g"
    using \<open>gap g\<close> by (simp add: ws_run_def gap_def)
qed (simp add: ws_run_def NL_def)

lemma plain_not_ws: "plain w \<longleftrightarrow> w \<noteq> [] \<and> (\<forall>c \<in> set w. \<not> is_ws c)"
  unfolding plain_def is_ws_def by (rule refl)

lemma digit_not_ws: "is_digit c \<Longrightarrow> \<not> is_ws c"
  by (auto simp: is_digit_def is_ws_def)

lemma plain_start:
  assumes "plain w"
  shows "dropWhile is_ws (w @ s) = w @ s"
  using assms by (cases w) (auto simp: plain_not_ws)

lemma plain_take:
  assumes "plain w" and "is_ws c"
  shows "takeWhile (\<lambda>c. \<not> is_ws c) (w @ c # s) = w"
  using assms by (auto simp: plain_not_ws takeWhile_append)

lemma extract_word_plain:
  assumes "plain w" and "is_ws c"
  shows "extract_word (w @ c # s) = Some (w, c # s)"
  using assms by (simp add: extract_word_def plain_start plain_take Let_def) (simp add: plain_not_ws)

lemma extract_word_max_plain:
  assumes "plain w" and "is_ws c" and "length w \<le> n"
  shows "extract_word_max n (w @ c # s) = Some (w, c # s)"
  using assms
  by (cases n) (simp_all add: extract_word_max_def plain_start plain_take Let_def, simp_all add: plain_not_ws)

lemma dec_nat_take:
  assumes "\<not> is_digit c"
  shows "takeWhile is_digit (dec_nat n @ c # s) = dec_nat n"
  using assms dec_nat_digits [of n] by (simp add: takeWhile_append)

lemma dec_nat_plain: "plain (dec_nat n)"
  using dec_nat_digits [of n] dec_nat_nonempty [of n] by (auto simp: plain_not_ws digit_not_ws)

lemma extract_number_nat:
  assumes "\<not> is_digit c"
  shows "extract_number (dec_nat n @ c # s) = Some (int n, c # s)"
proof -
  obtain d ds where d: "dec_nat n = d # ds"
    using dec_nat_nonempty [of n] by (cases "dec_nat n") auto
  then have "is_digit d"
    using dec_nat_digits [of n] by simp
  then have "d \<noteq> CHR ''-''" "d \<noteq> CHR ''+''"
    by (auto simp: is_digit_def)
  then show ?thesis
    using plain_start [OF dec_nat_plain, of n "c # s"] dec_nat_take [OF assms, of n s] val_dec_dec_nat [of n]
    by (simp add: extract_number_def Let_def d)
qed

lemma extract_number_int:
  assumes "\<not> is_digit c"
  shows "extract_number (dec_int i @ c # s) = Some (i, c # s)"
proof (cases "i < 0")
  case True
  have "\<not> is_ws (CHR ''-'')"
    by (simp add: is_ws_def)
  then show ?thesis
    using True dec_nat_take [OF assms, of "nat (- i)" s] dec_nat_nonempty [of "nat (- i)"]
    by (simp add: dec_int_def extract_number_def val_dec_dec_nat Let_def)
next
  case False
  then show ?thesis
    using extract_number_nat [OF assms, of "nat i" s] by (simp add: dec_int_def)
qed

text \<open>A column followed by a gap is read up to the gap; the gap before a column is skipped.\<close>

lemma ws_run_cases:
  assumes "ws_run g"
  obtains c gs where "g = c # gs" "is_ws c" "\<not> is_digit c"
  using assms digit_not_ws by (cases g) (auto simp: ws_run_def)

lemma extract_gap:
  assumes "ws_run g"
  shows "extract_word (g @ s) = extract_word s" "extract_word_max n (g @ s) = extract_word_max n s"
    "extract_number (g @ s) = extract_number s" "extract_u64 (g @ s) = extract_u64 s"
    "extract_int (g @ s) = extract_int s"
proof -
  have "dropWhile is_ws (g @ s) = dropWhile is_ws s"
    using assms by (simp add: ws_run_def dropWhile_append2)
  then show "extract_word (g @ s) = extract_word s" "extract_word_max n (g @ s) = extract_word_max n s"
    "extract_number (g @ s) = extract_number s" "extract_u64 (g @ s) = extract_u64 s"
    "extract_int (g @ s) = extract_int s"
    by (simp_all add: extract_word_def extract_word_max_def extract_number_def extract_u64_def extract_int_def)
qed

lemma extract_column:
  assumes "ws_run g"
  shows "plain w \<Longrightarrow> extract_word (w @ g @ s) = Some (w, g @ s)"
    and "plain w \<Longrightarrow> length w \<le> n \<Longrightarrow> extract_word_max n (w @ g @ s) = Some (w, g @ s)"
    and "extract_number (dec_nat k @ g @ s) = Some (int k, g @ s)"
    and "extract_number (dec_int i @ g @ s) = Some (i, g @ s)"
  by (rule ws_run_cases [OF assms],
      simp add: extract_word_plain extract_word_max_plain extract_number_nat extract_number_int)+

lemma extract_row_show:
  assumes "row_ok x"
  shows "extract_row (show_row x @ s) = Some (row_entry x, NL @ s)"
    and "scan_row (show_row x @ s) = Scan_row (sw_path (row_entry x)) (int (unat (sw_size_kb (row_entry x)))) (NL @ s)"
proof -
  obtain g1 g2 g3 g4 where g: "row_gaps x = (g1, g2, g3, g4)" by (rule prod_cases4)
  let ?e = "row_entry x"
  have ok: "plain (sw_path ?e)" "length (sw_path ?e) \<le> 255" "plain (row_type x)" "length (row_type x) \<le> 31"
    "unat (sw_size_kb ?e) < 2 ^ 63" "row_used x < 2 ^ 63" and gaps: "ws_run g1" "ws_run g2" "ws_run g3" "ws_run g4"
    using assms by (simp_all add: row_ok_def g ws_runs(1))
  have p: "- (2 ^ 31) \<le> sint (sw_priority ?e)" "sint (sw_priority ?e) < 2 ^ 31"
    using sint_ge [of "sw_priority ?e"] sint_lt [of "sw_priority ?e"] by simp_all
  have e: "\<lparr>sw_path = sw_path ?e, sw_size_kb = word_of_nat (unat (sw_size_kb ?e)), sw_priority = sw_priority ?e\<rparr> = ?e"
    by (cases ?e) (simp add: of_nat_unat)
  note columns = gaps [THEN extract_gap(1)] gaps [THEN extract_gap(2)] gaps [THEN extract_gap(3)]
    gaps [THEN extract_gap(4)] gaps [THEN extract_gap(5)] gaps [THEN extract_column(1)]
    gaps [THEN extract_column(2)] gaps [THEN extract_column(3)] extract_column(4) [OF ws_runs(2)]
  show "extract_row (show_row x @ s) = Some (row_entry x, NL @ s)"
    using ok p e by (simp add: show_row_def g extract_row_def columns extract_u64_def extract_int_def)
  show "scan_row (show_row x @ s) = Scan_row (sw_path ?e) (int (unat (sw_size_kb ?e))) (NL @ s)"
    using ok p by (simp add: show_row_def g scan_row_def columns fits64_def fits32_def)
qed

lemma extract_row_end [simp]: "extract_row [] = None" "scan_row [] = Scan_stop"
  "extract_row (NL @ s) = extract_row s" "scan_row (NL @ s) = scan_row s"
  by (simp_all add: extract_row_def scan_row_def extract_gap [OF ws_runs(2)])
    (simp_all add: extract_word_def extract_word_max_def)

lemma read_rows_skip: "read_swap_rows (NL @ s) = read_swap_rows s" "lmkd_rows (NL @ s) = lmkd_rows s"
  by (simp_all add: read_swap_rows.simps [of "NL @ s"] read_swap_rows.simps [of s]
      lmkd_rows.simps [of "NL @ s"] lmkd_rows.simps [of s])

lemma read_swap_rows_show:
  assumes "\<forall>x \<in> set rows. row_ok x"
  shows "read_swap_rows (concat (map show_row rows)) = map row_entry rows"
  using assms
proof (induction rows)
  case Nil
  then show ?case by (simp add: read_swap_rows.simps)
next
  case (Cons x rows)
  then show ?case
    by (simp add: read_swap_rows.simps [of "show_row x @ _"] extract_row_show read_rows_skip)
qed

lemma lmkd_rows_show:
  assumes "\<forall>x \<in> set rows. row_ok x"
  shows "lmkd_rows (concat (map show_row rows)) =
    Some (case List.find (\<lambda>e. sw_path e = kSwapPath) (map row_entry rows) of
        None \<Rightarrow> 0 | Some e \<Rightarrow> int (unat (sw_size_kb e)))"
  using assms
proof (induction rows)
  case Nil
  then show ?case by (simp add: lmkd_rows.simps)
next
  case (Cons x rows)
  then show ?case
    by (simp add: lmkd_rows.simps [of "show_row x @ _"] extract_row_show read_rows_skip)
qed

lemma header_skipped:
  assumes "CHR 0x0A \<notin> set header"
  shows "after_line (header @ NL @ s) = s"
    and "length header < 511 \<Longrightarrow> fgets_rest 512 (header @ NL @ s) = Some s"
proof -
  have "dropWhile (\<lambda>c. c \<noteq> CHR 0x0A) (header @ NL @ s) = NL @ s"
    "takeWhile (\<lambda>c. c \<noteq> CHR 0x0A) (header @ NL @ s) = header"
    using assms by (auto simp: NL_def dropWhile_append takeWhile_append)
  then show "after_line (header @ NL @ s) = s"
    and "length header < 511 \<Longrightarrow> fgets_rest 512 (header @ NL @ s) = Some s"
    by (simp_all add: after_line_def fgets_rest_def NL_def)
qed

section \<open>The lowest zram priority\<close>

lemma lowest_loop:
  "foldl (\<lambda>priority e. if \<not> is_zram e then priority
      else Some (case priority of None \<Rightarrow> sw_priority e
        | Some p \<Rightarrow> if sint (sw_priority e) < sint p then sw_priority e else p)) (Some p) es = Some q \<Longrightarrow>
    (q = p \<or> (\<exists>e \<in> set es. is_zram e \<and> sw_priority e = q)) \<and> sint q \<le> sint p \<and>
    (\<forall>e \<in> set es. is_zram e \<longrightarrow> sint q \<le> sint (sw_priority e))"
proof (induction es arbitrary: p)
  case (Cons e es)
  then show ?case
    by (fastforce split: if_splits)
qed simp

lemma lowest_zram:
  "case FindLowestZramPriority es of
     None \<Rightarrow> \<forall>e \<in> set es. \<not> is_zram e
   | Some p \<Rightarrow> (\<exists>e \<in> set es. is_zram e \<and> sw_priority e = p) \<and>
       (\<forall>e \<in> set es. is_zram e \<longrightarrow> sint p \<le> sint (sw_priority e))"
proof (induction es)
  case Nil
  then show ?case by (simp add: FindLowestZramPriority_def)
next
  case (Cons e es)
  show ?case
  proof (cases "is_zram e")
    case True
    let ?f = "\<lambda>priority e. if \<not> is_zram e then priority
      else Some (case priority of None \<Rightarrow> sw_priority e
        | Some p \<Rightarrow> if sint (sw_priority e) < sint p then sw_priority e else p)"
    have "foldl ?f (Some p) xs \<noteq> None" for p xs
      by (induction xs arbitrary: p) auto
    then obtain q where q: "foldl ?f (Some (sw_priority e)) es = Some q"
      by blast
    then have "FindLowestZramPriority (e # es) = Some q"
      using True by (simp add: FindLowestZramPriority_def)
    then show ?thesis
      using True lowest_loop [OF q] by auto
  next
    case False
    then show ?thesis
      using Cons by (auto simp: FindLowestZramPriority_def split: option.splits)
  qed
qed

section \<open>Properties\<close>

text \<open>
  The table of a device with zram, as its kernel prints it: the path padded with blanks to column 40,
  a further tab after \<open>file\<close>, after a size below \<open>10 ^ 7\<close> and after a small used size.
\<close>

definition TAB :: string where "TAB = [CHR 0x09]"

definition swaps_header :: string where
  "swaps_header = ''Filename'' @ TAB @ TAB @ TAB @ TAB @ ''Type'' @ TAB @ TAB @ ''Size'' @ TAB @ TAB @
    ''Used'' @ TAB @ TAB @ ''Priority''"

definition zram_row :: swap_row where
  "zram_row = \<lparr>row_entry = \<lparr>sw_path = ''/dev/block/zram0'', sw_size_kb = 4194300, sw_priority = 32758\<rparr>,
    row_type = ''partition'', row_used = 17, row_gaps = (replicate 24 CHR '' '', TAB, TAB @ TAB, TAB @ TAB)\<rparr>"

definition file_row :: swap_row where
  "file_row = \<lparr>row_entry = \<lparr>sw_path = kSwapPath, sw_size_kb = 2097148, sw_priority = - 2\<rparr>,
    row_type = ''file'', row_used = 0, row_gaps = (replicate 4 CHR '' '', TAB @ TAB, TAB @ TAB, TAB @ TAB)\<rparr>"

lemma example_rows:
  "row_ok zram_row" "row_ok file_row" "CHR 0x0A \<notin> set swaps_header" "length swaps_header < 511"
  "row_entry zram_row = \<lparr>sw_path = ''/dev/block/zram0'', sw_size_kb = 4194300, sw_priority = 32758\<rparr>"
  "row_entry file_row = \<lparr>sw_path = kSwapPath, sw_size_kb = 2097148, sw_priority = - 2\<rparr>"
  by (simp_all add: row_ok_def zram_row_def file_row_def plain_def gap_def is_ws_def kSwapPath_def swaps_header_def
      TAB_def)

text \<open>
  C36: both programs read the kernel's swap table. From the text of a table of any number of rows,
  with any run of blanks and tabs between the columns, the set-up tool gets exactly the rows, in order, and the
  low-memory killer gets the size of the row the set-up tool finds for the RAM Plus swap file, or 0
  when there is none. The rows are those both readers can hold: paths of up to 255 characters without
  blanks, types of up to 31, sizes below \<open>2 ^ 63\<close>.
\<close>

theorem swap_table_read:
  assumes "\<forall>x \<in> set rows. row_ok x" and "CHR 0x0A \<notin> set header" and "length header < 511"
  shows "let text = header @ NL @ concat (map show_row rows) in
    ReadSwapEntries (Some text) = Some (map row_entry rows) \<and>
    FindRamPlusSwap (Some text) = List.find (\<lambda>e. sw_path e = kSwapPath) (map row_entry rows) \<and>
    ReadRamPlusSwapKb (Some text) =
      Some (case List.find (\<lambda>e. sw_path e = kSwapPath) (map row_entry rows) of
          None \<Rightarrow> 0 | Some e \<Rightarrow> int (unat (sw_size_kb e)))"
  using assms
  by (simp add: ReadSwapEntries_def ReadRamPlusSwapKb_def FindRamPlusSwap_def header_skipped
      read_swap_rows_show lmkd_rows_show)

theorem swap_table_read_witness:
  "let text = swaps_header @ NL @ concat (map show_row [zram_row, file_row])
   in FindRamPlusSwap (Some text) = Some \<lparr>sw_path = kSwapPath, sw_size_kb = 2097148, sw_priority = - 2\<rparr> \<and>
      ReadRamPlusSwapKb (Some text) = Some 2097148"
proof -
  have "\<forall>x \<in> set [zram_row, file_row]. row_ok x"
    by (simp add: example_rows)
  from swap_table_read [OF this example_rows(3,4)] show ?thesis
    by (simp add: Let_def example_rows(5,6) kSwapPath_def)
qed

text \<open>
  C37: the low-memory killer is never told of more free swap than there is. With RAM Plus active
  and a product that fits 64 bits, the corrected value is defined: the free space itself while the
  swap file can hold it, and beyond that the swap file plus what the available memory can take
  compressed; it is at least the part on disk and at most the free space.
\<close>

theorem lmkd_free_swap_bounded:
  assumes "0 < g" and "fits64 g" and "0 < cr" and "0 < crd" and "0 \<le> fs" and "fits64 fs"
    and "0 \<le> ea" and "fits64 (ea * cr)"
  shows "\<exists>r. lmkd_adjust_free_swap_hook g fs ea cr crd adj = Some r \<and>
    r = (if fs \<le> g then fs else g + min (fs - g) (ea * cr div crd)) \<and> min fs g \<le> r \<and> r \<le> fs"
proof -
  have p: "0 \<le> ea * cr"
    using assms(3,7) by simp
  then have d: "c_div (ea * cr) crd = ea * cr div crd" "0 \<le> ea * cr div crd"
    using assms(4) by (auto simp: c_div_def sgn_if pos_imp_zdiv_nonneg_iff)
  moreover have "- 9223372036854775808 \<le> ea * cr"
    using p by (rule order_trans [rotated]) simp
  ultimately show ?thesis
    using assms unfolding lmkd_adjust_free_swap_hook_def fits64_def Let_def d(1)
    by (auto simp: min_def max_def)
qed

theorem lmkd_free_swap_bounded_witness:
  "lmkd_adjust_free_swap_hook 2097148 3000000 800000 3 1 0 = Some 3000000"
  using lmkd_free_swap_bounded [of 2097148 3 1 3000000 800000 0] by (simp add: fits64_def)

end
