(* ===== verification/Ram_Plus_Setup.thy ===== *)
theory Ram_Plus_Setup
  imports Ram_Plus_Swaps
begin

text \<open>
  The RAM Plus set-up tool (\<^verbatim>\<open>ax_ram_plus_setup.cpp\<close>): it checks the requested size, waits for
  zram, allocates and formats a swap file, activates it, verifies what the kernel made of it and
  publishes the outcome in system properties. The answers of system calls and libraries are the
  fields of \<open>rp_env\<close>; the effects on the swap file, the swap table and the properties are the state
  \<open>rp_world\<close>. A result \<^const>\<open>None\<close> of the program stands for not returning. Shown: the published
  status tells the truth about the swap area, failures clean up after themselves, and the swap file
  has been fully written before it is formatted.
\<close>

section \<open>Definitions\<close>

definition kSupportedProp :: string where "kSupportedProp = ''persist.sys.ax_rp_supp''"
definition kActiveSizeProp :: string where "kActiveSizeProp = ''persist.sys.ax_rp_active_kb''"
definition kStatusProp :: string where "kStatusProp = ''persist.sys.ax_rp_status''"
definition kBytesPerMib :: u64 where "kBytesPerMib = 1024 * 1024"
definition kKilobytesPerMib :: u64 where "kKilobytesPerMib = 1024"
definition kSwapSizeToleranceKb :: u64 where "kSwapSizeToleranceKb = 1024"
definition kStatBlockSize :: u64 where "kStatBlockSize = 512"
definition kWriteChunkBytes :: u64 where "kWriteChunkBytes = 4 * kBytesPerMib"
definition kDefaultReserveMib :: u64 where "kDefaultReserveMib = 4096"
definition kZramPollAttempts :: nat where "kZramPollAttempts = 60"

lemmas rp_consts = kBytesPerMib_def kKilobytesPerMib_def kSwapSizeToleranceKb_def kStatBlockSize_def
  kWriteChunkBytes_def kDefaultReserveMib_def kZramPollAttempts_def

datatype PrepareResult = kOk | kInsufficientSpace | kFileError | kAllocationError

datatype lstat_result = Lstat_dir | Lstat_not_dir | Lstat_enoent | Lstat_error

datatype wait_result = Wait_intr | Wait_error | Wait_exited s32 | Wait_signaled

record rp_stat =
  st_reg :: bool
  st_size :: s64
  st_blocks :: s64

text \<open>
  The answers of the system. \<open>swapoff_err\<close> and \<open>unlink_err\<close> may depend on whether the swap is active
  and the file exists; \<open>zram_poll n\<close> is the swap table at the n-th poll, \<open>swaps_now\<close> after activation.
\<close>

record rp_env =
  bool_prop :: "string \<Rightarrow> bool"
  size_prop :: "u32 option"
  set_prop_ok :: "string \<Rightarrow> string \<Rightarrow> bool"
  zram_poll :: "nat \<Rightarrow> string option"
  swaps_now :: "string option"
  lstat_dir :: lstat_result
  mkdir_ok :: bool
  chmod_ok :: bool
  open_ok :: bool
  fstat_res :: "rp_stat option"
  fchmod_ok :: bool
  statvfs_res :: "(u64 \<times> u64) option"
  ftruncate_ok :: bool
  write_ok :: "u64 \<Rightarrow> u64 \<Rightarrow> bool"
  fsync_ok :: bool
  fork_ok :: bool
  wait_seq :: "nat \<Rightarrow> wait_result"
  swapon_ok :: bool
  swapoff_err :: "bool \<Rightarrow> errno option"
  unlink_err :: "bool \<Rightarrow> errno option"

record rp_world =
  rp_active :: bool
  rp_file :: bool
  rp_size :: u64
  rp_written :: "(u64 \<times> u64) list"
  rp_props :: "string \<Rightarrow> string option"

definition IsAllowedSize :: "u32 \<Rightarrow> bool" where
  "IsAllowedSize size_mib \<longleftrightarrow> size_mib = 0 \<or> size_mib = 2048 \<or> size_mib = 4096 \<or> size_mib = 6144 \<or> size_mib = 8192"

definition SetProperty :: "rp_env \<Rightarrow> string \<Rightarrow> string \<Rightarrow> rp_world \<Rightarrow> bool \<times> rp_world" where
  "SetProperty E k v W =
    (if set_prop_ok E k v then (True, W\<lparr>rp_props := (rp_props W)(k \<mapsto> v)\<rparr>) else (False, W))"

definition PublishStatus :: "rp_env \<Rightarrow> u64 \<Rightarrow> string \<Rightarrow> rp_world \<Rightarrow> bool \<times> rp_world" where
  "PublishStatus E active_kb status W =
    (let (size_set, W) = SetProperty E kActiveSizeProp (dec_nat (unat active_kb)) W;
         (status_set, W) = SetProperty E kStatusProp status W
     in (size_set \<and> status_set, W))"

text \<open>The polling loop, from an attempt on, for the attempts that remain.\<close>

fun wait_zram :: "rp_env \<Rightarrow> nat \<Rightarrow> nat \<Rightarrow> s32 option" where
  "wait_zram E attempt 0 = None"
| "wait_zram E attempt (Suc left) =
    (case Option.bind (ReadSwapEntries (zram_poll E attempt)) FindLowestZramPriority of
       Some priority \<Rightarrow> Some priority
     | None \<Rightarrow> wait_zram E (Suc attempt) left)"

definition WaitForZramPriority :: "rp_env \<Rightarrow> s32 option" where
  "WaitForZramPriority E = wait_zram E 0 kZramPollAttempts"

definition EnsureDataDirectory :: "rp_env \<Rightarrow> bool" where
  "EnsureDataDirectory E =
    (case lstat_dir E of
       Lstat_dir \<Rightarrow> chmod_ok E
     | Lstat_not_dir \<Rightarrow> False
     | Lstat_enoent \<Rightarrow> if mkdir_ok E then chmod_ok E else False
     | Lstat_error \<Rightarrow> False)"

definition HasAllocationSpace :: "rp_env \<Rightarrow> u64 \<Rightarrow> u64 \<Rightarrow> bool option" where
  "HasAllocationSpace E current_bytes requested_bytes =
    (if requested_bytes \<le> current_bytes then Some True
     else case statvfs_res E of
       None \<Rightarrow> None
     | Some (f_bavail, f_frsize) \<Rightarrow>
         let available_bytes = f_bavail * f_frsize;
             required_bytes = requested_bytes - current_bytes + kDefaultReserveMib * kBytesPerMib
         in Some (available_bytes \<ge> required_bytes))"

text \<open>The writes of zeroes, in chunks; the state records what was written.\<close>

function WriteZeroes :: "rp_env \<Rightarrow> u64 \<Rightarrow> u64 \<Rightarrow> rp_world \<Rightarrow> bool \<times> rp_world" where
  "WriteZeroes E offset end' W =
    (if offset < end' then
       let chunk = min kWriteChunkBytes (end' - offset) in
       if \<not> write_ok E offset chunk then (False, W)
       else WriteZeroes E (offset + chunk) end' (W\<lparr>rp_written := rp_written W @ [(offset, chunk)]\<rparr>)
     else (True, W))"
  by pat_completeness auto

lemma chunk_progress:
  assumes "offset < (end' :: u64)"
  shows "unat (offset + min kWriteChunkBytes (end' - offset)) = unat offset + unat (min kWriteChunkBytes (end' - offset))"
    and "0 < unat (min kWriteChunkBytes (end' - offset))"
    and "unat offset + unat (min kWriteChunkBytes (end' - offset)) \<le> unat end'"
proof -
  let ?c = "min kWriteChunkBytes (end' - offset)"
  have lt: "unat offset < unat end'"
    using assms by (simp add: word_less_nat_alt)
  have d: "unat (end' - offset) = unat end' - unat offset"
    using assms by (simp add: unat_sub less_imp_le)
  have "unat kWriteChunkBytes = 4194304"
    by (simp add: rp_consts)
  then have c: "unat ?c = min 4194304 (unat end' - unat offset)"
    by (simp add: unat_min_word d)
  then show "0 < unat ?c" and le: "unat offset + unat ?c \<le> unat end'"
    using lt by simp_all
  have "unat offset + unat ?c < 2 ^ 64"
    using order.strict_trans1 [OF le unat_u64_lt] by simp
  then show "unat (offset + ?c) = unat offset + unat ?c"
    by (simp add: unat_word_ariths(1))
qed

termination WriteZeroes
proof (relation "measure (\<lambda>(E, offset, end', W). unat end' - unat offset)")
  fix E and offset end' :: u64 and W and x
  assume lt: "offset < end'" and x: "x = min kWriteChunkBytes (end' - offset)"
  have "unat (offset + x) = unat offset + unat x" "0 < unat x" "unat offset + unat x \<le> unat end'"
    unfolding x using chunk_progress [OF lt] .
  then show "((E, offset + x, end', W\<lparr>rp_written := rp_written W @ [(offset, x)]\<rparr>), E, offset, end', W)
      \<in> measure (\<lambda>(E, offset, end', W). unat end' - unat offset)"
    by simp
qed simp

declare WriteZeroes.simps [simp del]

definition PrepareSwapFile :: "rp_env \<Rightarrow> u64 \<Rightarrow> rp_world \<Rightarrow> PrepareResult \<times> rp_world" where
  "PrepareSwapFile E requested_bytes W =
    (if \<not> open_ok E then (kFileError, W)
     else
       let W = W\<lparr>rp_file := True\<rparr> in
       (case fstat_res E of
          None \<Rightarrow> (kFileError, W)
        | Some st \<Rightarrow>
            if \<not> st_reg st then (kFileError, W)
            else if \<not> fchmod_ok E then (kFileError, W)
            else
              let allocated_bytes = (if sint (st_blocks st) > 0 then st_blocks st * kStatBlockSize else 0);
                  current_bytes = (if sint (st_size st) > 0 then st_size st else 0)
              in (case HasAllocationSpace E (min allocated_bytes requested_bytes) requested_bytes of
                    None \<Rightarrow> (kFileError, W)
                  | Some has_space \<Rightarrow>
                      if \<not> has_space then (kInsufficientSpace, W)
                      else if \<not> ftruncate_ok E then (kAllocationError, W)
                      else
                        let W = W\<lparr>rp_size := requested_bytes\<rparr>;
                            preserved_bytes = min current_bytes requested_bytes;
                            write_offset = (if allocated_bytes < preserved_bytes then 0 else preserved_bytes);
                            (ok, W) = WriteZeroes E write_offset requested_bytes W
                        in if \<not> ok then (kAllocationError, W)
                           else if \<not> fsync_ok E then (kFileError, W)
                           else (kOk, W))))"

text \<open>\<open>waitpid\<close> is called again while it is interrupted.\<close>

partial_function (option) wait_loop :: "rp_env \<Rightarrow> nat \<Rightarrow> wait_result option" where
  "wait_loop E n = (if wait_seq E n = Wait_intr then wait_loop E (Suc n) else Some (wait_seq E n))"

definition RunMkswap :: "rp_env \<Rightarrow> bool option" where
  "RunMkswap E =
    (if \<not> fork_ok E then Some False
     else map_option (\<lambda>r. r = Wait_exited 0) (wait_loop E 0))"

definition DisableSwap :: "rp_env \<Rightarrow> rp_world \<Rightarrow> bool \<times> rp_world" where
  "DisableSwap E W =
    (case swapoff_err E (rp_active W) of
       None \<Rightarrow> (True, W\<lparr>rp_active := False\<rparr>)
     | Some e \<Rightarrow> (e = EINVAL \<or> e = ENOENT, W))"

definition RemoveSwapFile :: "rp_env \<Rightarrow> rp_world \<Rightarrow> bool \<times> rp_world" where
  "RemoveSwapFile E W =
    (case unlink_err E (rp_file W) of
       None \<Rightarrow> (True, W\<lparr>rp_file := False\<rparr>)
     | Some e \<Rightarrow> (e = ENOENT, W))"

definition Fail :: "rp_env \<Rightarrow> string \<Rightarrow> rp_world \<Rightarrow> s32 \<times> rp_world" where
  "Fail E status W = (1, snd (PublishStatus E 0 status W))"

definition FailPreparedSwap :: "rp_env \<Rightarrow> string \<Rightarrow> rp_world \<Rightarrow> s32 \<times> rp_world" where
  "FailPreparedSwap E status W =
    (let (removed, W) = RemoveSwapFile E W in if removed then Fail E status W else Fail E ''file_error'' W)"

definition FailActiveSwap :: "rp_env \<Rightarrow> u64 \<Rightarrow> string \<Rightarrow> rp_world \<Rightarrow> s32 \<times> rp_world" where
  "FailActiveSwap E active_kb status W =
    (let (disabled, W) = DisableSwap E W
     in if \<not> disabled then (1, snd (PublishStatus E active_kb ''swapoff_failed'' W))
        else FailPreparedSwap E status W)"

text \<open>The part of \<open>main\<close> after the swap is on.\<close>

definition rp_verify :: "rp_env \<Rightarrow> u32 \<Rightarrow> s32 \<Rightarrow> rp_world \<Rightarrow> s32 \<times> rp_world" where
  "rp_verify E requested_mib zram_priority W =
    (let requested_kb = ucast requested_mib * kKilobytesPerMib in
     case FindRamPlusSwap (swaps_now E) of
       None \<Rightarrow> FailActiveSwap E requested_kb ''verification_failed'' W
     | Some swap \<Rightarrow>
         if sw_size_kb swap > requested_kb \<or> requested_kb - sw_size_kb swap > kSwapSizeToleranceKb
         then FailActiveSwap E (sw_size_kb swap) ''verification_failed'' W
         else if sint (sw_priority swap) \<ge> sint zram_priority
         then FailActiveSwap E (sw_size_kb swap) ''priority_error'' W
         else
           let (published, W) = PublishStatus E (sw_size_kb swap) ''active'' W
           in if \<not> published then FailActiveSwap E (sw_size_kb swap) ''activation_failed'' W
              else (0, W))"

text \<open>The part of \<open>main\<close> that allocates, formats and activates the swap file.\<close>

definition rp_activate :: "rp_env \<Rightarrow> u32 \<Rightarrow> s32 \<Rightarrow> rp_world \<Rightarrow> (s32 \<times> rp_world) option" where
  "rp_activate E requested_mib zram_priority W =
    (let requested_bytes = ucast requested_mib * kBytesPerMib;
         (prepared, W) = PrepareSwapFile E requested_bytes W in
     case prepared of
       kInsufficientSpace \<Rightarrow> Some (FailPreparedSwap E ''insufficient_space'' W)
     | kFileError \<Rightarrow> Some (FailPreparedSwap E ''file_error'' W)
     | kAllocationError \<Rightarrow> Some (FailPreparedSwap E ''allocation_failed'' W)
     | kOk \<Rightarrow>
         do {
           formatted \<leftarrow> RunMkswap E;
           Some (if \<not> formatted then FailPreparedSwap E ''format_failed'' W
             else if \<not> swapon_ok E then FailPreparedSwap E ''activation_failed'' W
             else rp_verify E requested_mib zram_priority (W\<lparr>rp_active := True\<rparr>))
         })"

definition rp_main :: "rp_env \<Rightarrow> rp_world \<Rightarrow> (s32 \<times> rp_world) option" where
  "rp_main E W =
    (if \<not> bool_prop E kSupportedProp then Some (Fail E ''unsupported'' W)
     else case size_prop E of
       None \<Rightarrow> Some (Fail E ''invalid_size'' W)
     | Some requested_mib \<Rightarrow>
         if \<not> IsAllowedSize requested_mib then Some (Fail E ''invalid_size'' W)
         else if requested_mib = 0 then
           (let (disabled, W) = DisableSwap E W in
            if \<not> disabled then Some (Fail E ''swapoff_failed'' W)
            else
              let (removed, W) = RemoveSwapFile E W in
              if \<not> removed then Some (Fail E ''file_error'' W)
              else let (published, W) = PublishStatus E 0 ''disabled'' W in Some (if published then 0 else 1, W))
         else if \<not> bool_prop E ''ro.crypto.metadata.enabled'' then Some (Fail E ''encryption_required'' W)
         else case WaitForZramPriority E of
           None \<Rightarrow> Some (Fail E ''zram_not_ready'' W)
         | Some zram_priority \<Rightarrow>
             let (disabled, W) = DisableSwap E W in
             if \<not> disabled then Some (Fail E ''swapoff_failed'' W)
             else if \<not> EnsureDataDirectory E then Some (Fail E ''file_error'' W)
             else rp_activate E requested_mib zram_priority W)"

text \<open>
  The contract of \<open>swapoff\<close> and \<open>unlink\<close>: the errors the tool takes for success (not a swap area in
  use, no such file) are not returned while the swap is active and while the file exists.
\<close>

definition swap_contract :: "rp_env \<Rightarrow> bool" where
  "swap_contract E \<longleftrightarrow> swapoff_err E True \<notin> {Some EINVAL, Some ENOENT} \<and> unlink_err E True \<noteq> Some ENOENT"

text \<open>Chunks that follow each other from \<open>a\<close> to \<open>b\<close>, none larger than 4 MiB.\<close>

fun covers :: "nat \<Rightarrow> nat \<Rightarrow> (u64 \<times> u64) list \<Rightarrow> bool" where
  "covers a b [] \<longleftrightarrow> a = b"
| "covers a b ((x, n) # cs) \<longleftrightarrow> unat x = a \<and> 0 < unat n \<and> unat n \<le> 4194304 \<and> covers (a + unat n) b cs"

text \<open>A swap table entry accepted for a requested size, against the priority of zram.\<close>

definition accepted :: "u32 \<Rightarrow> s32 \<Rightarrow> SwapEntry \<Rightarrow> bool" where
  "accepted requested_mib zram e \<longleftrightarrow> sw_path e = kSwapPath \<and>
    unat (sw_size_kb e) \<le> unat requested_mib * 1024 \<and> unat requested_mib * 1024 - unat (sw_size_kb e) \<le> 1024 \<and>
    sint (sw_priority e) < sint zram"

section \<open>Writing the swap file\<close>

lemma write_zeroes_covers:
  "WriteZeroes E offset end' W = (ok, W') \<Longrightarrow> offset \<le> end' \<Longrightarrow>
    \<exists>cs. W' = W\<lparr>rp_written := rp_written W @ cs\<rparr> \<and> (ok \<longrightarrow> covers (unat offset) (unat end') cs)"
proof (induction E offset end' W arbitrary: ok W' rule: WriteZeroes.induct)
  case (1 E offset end' W)
  let ?c = "min kWriteChunkBytes (end' - offset)"
  let ?W = "W\<lparr>rp_written := rp_written W @ [(offset, ?c)]\<rparr>"
  consider (finish) "\<not> offset < end'" | (stop) "offset < end'" "\<not> write_ok E offset ?c"
    | (step) "offset < end'" "write_ok E offset ?c" by blast
  then show ?case
  proof cases
    case finish
    then have "offset = end'" using 1(3) by simp
    then have "ok \<and> W' = W" using 1(2) by (simp add: WriteZeroes.simps)
    then show ?thesis using \<open>offset = end'\<close> by (intro exI [of _ "[]"]) simp
  next
    case stop
    then have "\<not> ok \<and> W' = W" using 1(2) by (simp add: WriteZeroes.simps [of E offset] Let_def)
    then show ?thesis by (intro exI [of _ "[]"]) simp
  next
    case step
    have rec: "WriteZeroes E (offset + ?c) end' ?W = (ok, W')"
      using 1(2) step by (simp add: WriteZeroes.simps [of E offset] Let_def)
    have "offset + ?c \<le> end'"
      using chunk_progress [OF step(1)] by (simp add: word_le_nat_alt)
    from 1(1) [OF step(1) refl _ rec this] obtain cs where
      cs: "W' = ?W\<lparr>rp_written := rp_written ?W @ cs\<rparr>" "ok \<longrightarrow> covers (unat (offset + ?c)) (unat end') cs"
      using step(2) by blast
    have "unat ?c \<le> 4194304"
      by (simp add: unat_min_word rp_consts)
    then show ?thesis
      using cs chunk_progress [OF step(1)] by (intro exI [of _ "(offset, ?c) # cs"]) simp
  qed
qed

lemma write_zeroes_frame:
  obtains cs where "snd (WriteZeroes E a b W) = W\<lparr>rp_written := rp_written W @ cs\<rparr>"
    and "a \<le> b \<Longrightarrow> fst (WriteZeroes E a b W) \<Longrightarrow> covers (unat a) (unat b) cs"
proof (cases "a \<le> b")
  case True
  then show thesis
    using that write_zeroes_covers [of E a b W "fst (WriteZeroes E a b W)" "snd (WriteZeroes E a b W)"] by auto
next
  case False
  then have "\<not> a < b"
    by auto
  then have "WriteZeroes E a b W = (True, W)"
    by (simp add: WriteZeroes.simps)
  then show thesis
    using that [of "[]"] False by simp
qed

text \<open>The offset from which zeroes are written: all of a file with holes, else the part that is new.\<close>

definition zero_from :: "rp_stat \<Rightarrow> u64 \<Rightarrow> u64" where
  "zero_from st n =
    (let allocated = (if sint (st_blocks st) > 0 then st_blocks st * kStatBlockSize else 0);
         preserved = min (if sint (st_size st) > 0 then st_size st else 0) n
     in if allocated < preserved then 0 else preserved)"

lemma zero_from_le: "zero_from st n \<le> n"
  by (simp add: zero_from_def Let_def)

lemma prepare_outcome:
  assumes "PrepareSwapFile E n W = (r, W')"
  obtains f sz cs where "W' = W\<lparr>rp_file := f, rp_size := sz, rp_written := rp_written W @ cs\<rparr>"
    and "r = kOk \<Longrightarrow> \<exists>st. f \<and> sz = n \<and> fstat_res E = Some st \<and> st_reg st \<and> fsync_ok E \<and>
      HasAllocationSpace E (min (if sint (st_blocks st) > 0 then st_blocks st * kStatBlockSize else 0) n) n = Some True \<and>
      covers (unat (zero_from st n)) (unat n) cs"
proof -
  note result = that
  have keep: thesis if r: "r \<noteq> kOk" and "W' = W \<or> W' = W\<lparr>rp_file := True\<rparr>"
  proof -
    have "W' = W\<lparr>rp_file := rp_file W', rp_size := rp_size W, rp_written := rp_written W @ []\<rparr>"
      using that(2) by (elim disjE) simp_all
    from result [OF this] r show thesis
      by simp
  qed
  show thesis
  proof (cases "\<exists>st. open_ok E \<and> fstat_res E = Some st \<and> st_reg st \<and> fchmod_ok E \<and> ftruncate_ok E \<and>
      HasAllocationSpace E (min (if sint (st_blocks st) > 0 then st_blocks st * kStatBlockSize else 0) n) n = Some True")
    case True
    then obtain st where st: "open_ok E" "fstat_res E = Some st" "st_reg st" "fchmod_ok E" "ftruncate_ok E"
      "HasAllocationSpace E (min (if sint (st_blocks st) > 0 then st_blocks st * kStatBlockSize else 0) n) n = Some True"
      by blast
    let ?W = "W\<lparr>rp_file := True, rp_size := n\<rparr>"
    obtain cs where cs: "snd (WriteZeroes E (zero_from st n) n ?W) = ?W\<lparr>rp_written := rp_written ?W @ cs\<rparr>"
      "fst (WriteZeroes E (zero_from st n) n ?W) \<Longrightarrow> covers (unat (zero_from st n)) (unat n) cs"
      using write_zeroes_frame [of E "zero_from st n" n ?W] zero_from_le by blast
    have "PrepareSwapFile E n W =
        (if \<not> fst (WriteZeroes E (zero_from st n) n ?W) then kAllocationError else if \<not> fsync_ok E then kFileError else kOk,
         snd (WriteZeroes E (zero_from st n) n ?W))"
      using st by (simp add: PrepareSwapFile_def zero_from_def Let_def split_beta)
    then show thesis
      using assms cs st by (intro result [of cs n True]) (auto split: if_splits)
  next
    case False
    then show thesis
      using assms by (intro keep) (auto simp: PrepareSwapFile_def Let_def split: if_splits option.splits)
  qed
qed

section \<open>Failing and publishing\<close>

lemma publish_frame [simp]:
  "rp_active (snd (PublishStatus E kb st W)) = rp_active W" "rp_file (snd (PublishStatus E kb st W)) = rp_file W"
  "rp_size (snd (PublishStatus E kb st W)) = rp_size W" "rp_written (snd (PublishStatus E kb st W)) = rp_written W"
  by (simp_all add: PublishStatus_def SetProperty_def)

lemma publish_props:
  assumes "fst (PublishStatus E kb st W)"
  shows "rp_props (snd (PublishStatus E kb st W)) kStatusProp = Some st"
    and "rp_props (snd (PublishStatus E kb st W)) kActiveSizeProp = Some (dec_nat (unat kb))"
  using assms by (auto simp: PublishStatus_def SetProperty_def kStatusProp_def kActiveSizeProp_def split: if_splits)

lemma publish_total: "\<forall>k v. set_prop_ok E k v \<Longrightarrow> fst (PublishStatus E kb st W)"
  by (simp add: PublishStatus_def SetProperty_def)

lemma fail_code [simp]:
  "fst (Fail E st W) = 1" "fst (FailPreparedSwap E st W) = 1" "fst (FailActiveSwap E kb st W) = 1"
  by (simp_all add: Fail_def FailPreparedSwap_def FailActiveSwap_def split: prod.split)

text \<open>Status words that may leave a swap file behind: those of exits before the file is touched, and
  those that say that removing it or switching it off failed.\<close>

definition file_statuses :: "string set" where
  "file_statuses = {''active'', ''swapoff_failed'', ''file_error'', ''unsupported'', ''invalid_size'',
    ''encryption_required'', ''zram_not_ready''}"

text \<open>The refusals that come before the tool looks at an earlier swap.\<close>

definition refusals :: "string set" where
  "refusals = {''unsupported'', ''invalid_size'', ''encryption_required'', ''zram_not_ready''}"

text \<open>An outcome is honest, given whether a swap of the tool was on before.\<close>

definition honest :: "bool \<Rightarrow> s32 \<times> rp_world \<Rightarrow> bool" where
  "honest was_on = (\<lambda>(code, W). \<exists>st. rp_props W kStatusProp = Some st \<and>
    (code = 0 \<longleftrightarrow> st = ''active'' \<or> st = ''disabled'') \<and>
    (rp_active W \<longrightarrow> st = ''active'' \<or> st = ''swapoff_failed'' \<or> was_on \<and> st \<in> refusals) \<and>
    (rp_file W \<longrightarrow> st \<in> file_statuses))"

definition ends_honest :: "bool \<Rightarrow> (s32 \<times> rp_world) option \<Rightarrow> bool" where
  "ends_honest was_on r \<longleftrightarrow> (\<exists>x. r = Some x \<and> honest was_on x)"

lemma ends_honest_Some [simp]: "ends_honest was_on (Some x) = honest was_on x"
  by (simp add: ends_honest_def)

lemma disable_swap:
  assumes "swap_contract E" and "DisableSwap E W = (ok, W')"
  shows "ok \<Longrightarrow> \<not> rp_active W'" and "rp_file W' = rp_file W" and "rp_active W' \<Longrightarrow> rp_active W"
    and "rp_props W' = rp_props W" and "rp_size W' = rp_size W"
  using assms by (auto simp: DisableSwap_def swap_contract_def split: option.splits)

lemma remove_swap_file:
  assumes "swap_contract E" and "RemoveSwapFile E W = (ok, W')"
  shows "ok \<Longrightarrow> \<not> rp_file W'" and "rp_active W' = rp_active W" and "rp_props W' = rp_props W"
  using assms by (auto simp: RemoveSwapFile_def swap_contract_def split: option.splits)

lemma fail_honest:
  assumes "\<forall>k v. set_prop_ok E k v" and "st \<noteq> ''active''" and "st \<noteq> ''disabled''"
    and "rp_active W \<longrightarrow> st = ''swapoff_failed'' \<or> on \<and> st \<in> refusals" and "rp_file W \<longrightarrow> st \<in> file_statuses"
  shows "honest on (Fail E st W)"
  using assms publish_props(1) [OF publish_total [OF assms(1)], of 0 st W] by (auto simp: honest_def Fail_def)

lemma fail_prepared_honest:
  assumes "\<forall>k v. set_prop_ok E k v" and "swap_contract E" and "\<not> rp_active W"
    and "st \<noteq> ''active''" and "st \<noteq> ''disabled''"
  shows "honest on (FailPreparedSwap E st W)"
proof -
  obtain ok W' where r: "RemoveSwapFile E W = (ok, W')"
    by fastforce
  have "honest on (Fail E st W')" if ok
    using that remove_swap_file [OF assms(2) r] assms by (intro fail_honest) auto
  moreover have "honest on (Fail E ''file_error'' W')"
    using remove_swap_file [OF assms(2) r] assms by (intro fail_honest) (auto simp: file_statuses_def)
  ultimately show ?thesis
    by (simp add: FailPreparedSwap_def r)
qed

lemma fail_active_honest:
  assumes "\<forall>k v. set_prop_ok E k v" and "swap_contract E" and "st \<noteq> ''active''" and "st \<noteq> ''disabled''"
  shows "honest on (FailActiveSwap E kb st W)"
proof -
  obtain ok W' where d: "DisableSwap E W = (ok, W')"
    by fastforce
  show ?thesis
  proof (cases ok)
    case True
    then show ?thesis
      using fail_prepared_honest [OF assms(1,2) _ assms(3,4)] disable_swap(1) [OF assms(2) d]
      by (simp add: FailActiveSwap_def d)
  next
    case False
    then show ?thesis
      using publish_props(1) [OF publish_total [OF assms(1)], of kb "''swapoff_failed''" W']
      by (simp add: FailActiveSwap_def d honest_def file_statuses_def)
  qed
qed

lemma verify_honest:
  assumes "\<forall>k v. set_prop_ok E k v" and "swap_contract E" and "rp_active W" and "rp_file W"
  shows "honest on (rp_verify E m z W)"
proof -
  have "honest on (0, snd (PublishStatus E kb ''active'' W))" for kb
    using publish_props(1) [OF publish_total [OF assms(1)], of kb "''active''" W]
    by (simp add: honest_def file_statuses_def)
  then show ?thesis
    using fail_active_honest [OF assms(1,2)] publish_total [OF assms(1)]
    by (simp add: rp_verify_def Let_def split_beta split: option.split)
qed

lemma wait_loop_returns:
  assumes "wait_seq E n \<noteq> Wait_intr" and "k \<le> n"
  shows "wait_loop E k \<noteq> None"
  using assms(2)
proof (induction "n - k" arbitrary: k)
  case 0
  then show ?case
    using assms(1) by (simp add: wait_loop.simps)
next
  case (Suc d)
  then show ?case
    by (cases "wait_seq E k = Wait_intr") (simp_all add: wait_loop.simps [of E k])
qed

lemma mkswap_returns:
  assumes "wait_seq E n \<noteq> Wait_intr"
  obtains b where "RunMkswap E = Some b"
  using wait_loop_returns [OF assms, of 0] by (cases "fork_ok E") (auto simp: RunMkswap_def)

lemma activate_honest:
  assumes "\<forall>k v. set_prop_ok E k v" and "swap_contract E" and "\<not> rp_active W" and "wait_seq E n \<noteq> Wait_intr"
  shows "\<exists>x. rp_activate E m z W = Some x \<and> honest on x"
proof -
  obtain r W1 where p: "PrepareSwapFile E (ucast m * kBytesPerMib) W = (r, W1)"
    by fastforce
  obtain f sz cs where W1: "W1 = W\<lparr>rp_file := f, rp_size := sz, rp_written := rp_written W @ cs\<rparr>" and f: "r = kOk \<Longrightarrow> f"
    using prepare_outcome [OF p] by metis
  then have na: "\<not> rp_active W1"
    using assms(3) by simp
  obtain b where b: "RunMkswap E = Some b"
    using mkswap_returns [OF assms(4)] .
  have "honest on (rp_verify E m z (W1\<lparr>rp_active := True\<rparr>))" if "r = kOk"
    using verify_honest [OF assms(1,2), of "W1\<lparr>rp_active := True\<rparr>"] f [OF that] W1 by simp
  then show ?thesis
    using fail_prepared_honest [OF assms(1,2) na]
    by (cases r) (simp_all add: rp_activate_def p b)
qed

lemma main_honest:
  assumes "\<forall>k v. set_prop_ok E k v" and "swap_contract E" and "wait_seq E n \<noteq> Wait_intr"
  shows "ends_honest (rp_active W) (rp_main E W)"
proof -
  let ?on = "rp_active W"
  have early: "honest ?on (Fail E st W)" if "st \<in> refusals" for st
    using that assms(1) by (intro fail_honest) (auto simp: refusals_def file_statuses_def)
  have off: "honest ?on (Fail E st V)" if "st = ''swapoff_failed'' \<or> st = ''file_error'' \<and> \<not> rp_active V" for st V
    using that assms(1) by (intro fail_honest) (auto simp: file_statuses_def)
  obtain ok W1 where d: "DisableSwap E W = (ok, W1)" by fastforce
  have na: "\<not> rp_active W1" if ok
    using disable_swap(1) [OF assms(2) d that] .
  obtain ok2 W2 where r: "RemoveSwapFile E W1 = (ok2, W2)" by fastforce
  have na2: "\<not> rp_active W2" if ok
    using remove_swap_file(2) [OF assms(2) r] na [OF that] by simp
  have disabled: "honest ?on (0, snd (PublishStatus E 0 ''disabled'' W2))" if ok ok2
    using publish_props(1) [OF publish_total [OF assms(1)], of 0 "''disabled''" W2]
      remove_swap_file(1) [OF assms(2) r that(2)] na2 [OF that(1)]
    by (simp add: honest_def)
  have fails: "honest ?on (Fail E ''unsupported'' W)" "honest ?on (Fail E ''invalid_size'' W)"
    "honest ?on (Fail E ''encryption_required'' W)" "honest ?on (Fail E ''zram_not_ready'' W)"
    "honest ?on (Fail E ''swapoff_failed'' W1)"
    by (simp_all add: early off refusals_def)
  have fails2: "honest ?on (Fail E ''file_error'' W1)" "honest ?on (Fail E ''file_error'' W2)" if ok
    using na na2 that by (simp_all add: off)
  have act: "ends_honest ?on (rp_activate E m z W1)" if ok for m z
    using activate_honest [OF assms(1,2) na [OF that] assms(3)] by (simp add: ends_honest_def)
  show ?thesis
    using disabled publish_total [OF assms(1)] fails fails2 act
    by (simp add: rp_main_def d r split_beta split: option.split)
qed

lemma requested_kb: "unat (ucast (m :: u32) * kKilobytesPerMib) = unat m * 1024"
proof -
  have "unat m * 1024 < 18446744073709551616"
    using unat_u32_lt [of m] by linarith
  then show ?thesis
    by (simp add: unat_word_ariths(2) unat_ucast_u32_u64 kKilobytesPerMib_def)
qed

lemma verify_success:
  assumes "rp_verify E m z W = (0, W')"
  obtains e where "FindRamPlusSwap (swaps_now E) = Some e" and "accepted m z e"
    and "fst (PublishStatus E (sw_size_kb e) ''active'' W)" and "W' = snd (PublishStatus E (sw_size_kb e) ''active'' W)"
proof -
  have no: "FailActiveSwap E kb st V \<noteq> (0, V')" for kb st V V'
    using fail_code(3) [of E kb st V] by (cases "FailActiveSwap E kb st V") simp
  obtain e where e: "FindRamPlusSwap (swaps_now E) = Some e"
    using assms no by (cases "FindRamPlusSwap (swaps_now E)") (auto simp: rp_verify_def Let_def)
  then have sz: "sw_size_kb e \<le> ucast m * kKilobytesPerMib"
      "ucast m * kKilobytesPerMib - sw_size_kb e \<le> kSwapSizeToleranceKb"
    and prio: "sint (sw_priority e) < sint z"
    and pub: "fst (PublishStatus E (sw_size_kb e) ''active'' W)" "W' = snd (PublishStatus E (sw_size_kb e) ''active'' W)"
    using assms no by (auto simp: rp_verify_def Let_def split_beta not_less not_le split: if_splits)
  have "sw_path e = kSwapPath"
    using e by (auto simp: FindRamPlusSwap_def find_Some_iff split: option.splits)
  moreover have "unat (sw_size_kb e) \<le> unat m * 1024"
    using sz(1) requested_kb [of m] by (simp add: word_le_nat_alt)
  moreover have "unat m * 1024 - unat (sw_size_kb e) \<le> 1024"
    using sz(2) unat_sub [OF sz(1)] requested_kb [of m] by (simp add: word_le_nat_alt kSwapSizeToleranceKb_def)
  ultimately show thesis
    using that e prio pub by (simp add: accepted_def)
qed

lemma activate_success:
  assumes "rp_activate E m z W = Some (0, W')"
  obtains e st cs where "FindRamPlusSwap (swaps_now E) = Some e" and "accepted m z e"
    and "rp_active W'" and "rp_file W'" and "rp_size W' = ucast m * kBytesPerMib"
    and "fstat_res E = Some st" and "rp_written W' = rp_written W @ cs"
    and "covers (unat (zero_from st (ucast m * kBytesPerMib))) (unat (ucast m * kBytesPerMib :: u64)) cs"
    and "rp_props W' kStatusProp = Some ''active''"
    and "rp_props W' kActiveSizeProp = Some (dec_nat (unat (sw_size_kb e)))"
proof -
  obtain r W1 where p: "PrepareSwapFile E (ucast m * kBytesPerMib) W = (r, W1)"
    by fastforce
  have no: "FailPreparedSwap E st V \<noteq> (0, V')" for st V V'
    using fail_code(2) [of E st V] by (cases "FailPreparedSwap E st V") simp
  have r: "r = kOk" and v: "rp_verify E m z (W1\<lparr>rp_active := True\<rparr>) = (0, W')"
    using assms no
    by (auto simp: rp_activate_def p bind_eq_Some_conv split: PrepareResult.splits if_splits)
  obtain f sz cs where W1: "W1 = W\<lparr>rp_file := f, rp_size := sz, rp_written := rp_written W @ cs\<rparr>"
    and ok: "r = kOk \<Longrightarrow> \<exists>st. f \<and> sz = ucast m * kBytesPerMib \<and> fstat_res E = Some st \<and> st_reg st \<and> fsync_ok E \<and>
      HasAllocationSpace E (min (if sint (st_blocks st) > 0 then st_blocks st * kStatBlockSize else 0)
        (ucast m * kBytesPerMib)) (ucast m * kBytesPerMib) = Some True \<and>
      covers (unat (zero_from st (ucast m * kBytesPerMib))) (unat (ucast m * kBytesPerMib :: u64)) cs"
    using prepare_outcome [OF p] by metis
  obtain e where e: "FindRamPlusSwap (swaps_now E) = Some e" "accepted m z e"
    "fst (PublishStatus E (sw_size_kb e) ''active'' (W1\<lparr>rp_active := True\<rparr>))"
    "W' = snd (PublishStatus E (sw_size_kb e) ''active'' (W1\<lparr>rp_active := True\<rparr>))"
    using verify_success [OF v] .
  then show thesis
    using that ok [OF r] W1 publish_props [OF e(3)] by auto
qed

text \<open>An environment in which everything works, for worked examples.\<close>

definition example_swaps :: string where
  "example_swaps = swaps_header @ NL @ concat (map show_row [zram_row, file_row])"

definition example_rp_env :: rp_env where
  "example_rp_env = \<lparr>bool_prop = (\<lambda>_. True), size_prop = Some 2048, set_prop_ok = (\<lambda>_ _. True),
    zram_poll = (\<lambda>_. Some example_swaps), swaps_now = Some example_swaps, lstat_dir = Lstat_enoent, mkdir_ok = True,
    chmod_ok = True, open_ok = True, fstat_res = Some \<lparr>st_reg = True, st_size = 2147483648, st_blocks = 4194304\<rparr>, fchmod_ok = True,
    statvfs_res = Some (10000000, 4096), ftruncate_ok = True, write_ok = (\<lambda>_ _. True), fsync_ok = True, fork_ok = True,
    wait_seq = (\<lambda>n. if n < 3 then Wait_intr else Wait_exited 0), swapon_ok = True,
    swapoff_err = (\<lambda>on. if on then None else Some EINVAL), unlink_err = (\<lambda>ex. if ex then None else Some ENOENT)\<rparr>"

definition example_rp_world :: rp_world where
  "example_rp_world = \<lparr>rp_active = False, rp_file = False, rp_size = 0, rp_written = [], rp_props = Map.empty\<rparr>"

lemma example_table:
  "ReadSwapEntries (Some example_swaps) =
    Some [\<lparr>sw_path = ''/dev/block/zram0'', sw_size_kb = 4194300, sw_priority = 32758\<rparr>,
      \<lparr>sw_path = kSwapPath, sw_size_kb = 2097148, sw_priority = - 2\<rparr>]"
proof -
  have "read_swap_rows (concat (map show_row [zram_row, file_row])) = map row_entry [zram_row, file_row]"
    by (rule read_swap_rows_show) (simp add: example_rows)
  moreover have "after_line example_swaps = concat (map show_row [zram_row, file_row])"
    unfolding example_swaps_def by (rule header_skipped(1) [OF example_rows(3)])
  ultimately show ?thesis
    by (simp add: ReadSwapEntries_def example_rows(5,6))
qed

lemma example_zram: "WaitForZramPriority example_rp_env = Some 32758"
proof -
  have "zram_poll example_rp_env 0 = Some example_swaps"
    by (simp add: example_rp_env_def)
  moreover have "is_zram \<lparr>sw_path = ''/dev/block/zram0'', sw_size_kb = 4194300, sw_priority = 32758\<rparr>"
    "\<not> is_zram \<lparr>sw_path = kSwapPath, sw_size_kb = 2097148, sw_priority = - 2\<rparr>"
    by (simp_all add: is_zram_def starts_with_def kSwapPath_def)
  moreover have w: "WaitForZramPriority example_rp_env = wait_zram example_rp_env 0 (Suc 59)"
    by (simp add: WaitForZramPriority_def kZramPollAttempts_def)
  ultimately show ?thesis
    unfolding w wait_zram.simps(2) by (simp add: example_table FindLowestZramPriority_def)
qed

lemma example_entry:
  "FindRamPlusSwap (swaps_now example_rp_env) = Some \<lparr>sw_path = kSwapPath, sw_size_kb = 2097148, sw_priority = - 2\<rparr>"
proof -
  have "swaps_now example_rp_env = Some example_swaps"
    by (simp add: example_rp_env_def)
  then show ?thesis
    by (simp add: FindRamPlusSwap_def example_table) (simp add: kSwapPath_def)
qed

lemma example_mkswap: "RunMkswap example_rp_env = Some True"
  by (simp add: RunMkswap_def example_rp_env_def wait_loop.simps numeral_3_eq_3)

section \<open>Properties\<close>

text \<open>
  C11: the status RAM Plus publishes is honest. Provided that every property can be set, that
  \<open>swapoff\<close> and \<open>unlink\<close> do not report a missing swap area or file when it is there, and that
  \<open>waitpid\<close> is not interrupted for ever, the program ends, whatever the other calls answer and
  whether or not a swap of the tool was on before. Its exit code is 0 just for the statuses \<open>active\<close>
  and \<open>disabled\<close>. The swap is on at the end only with status \<open>active\<close> or \<open>swapoff_failed\<close>, or when
  it was on before and the tool refused early (\<open>unsupported\<close>, \<open>invalid_size\<close>, \<open>encryption_required\<close>,
  \<open>zram_not_ready\<close>) without touching it. A swap file is left behind only with one of these or
  \<open>file_error\<close>.
\<close>

theorem rp_status_honest:
  assumes "\<forall>k v. set_prop_ok E k v" and "swap_contract E" and "wait_seq E n \<noteq> Wait_intr"
  shows "\<exists>code W' st. rp_main E W = Some (code, W') \<and> rp_props W' kStatusProp = Some st \<and>
    (code = 0 \<longleftrightarrow> st = ''active'' \<or> st = ''disabled'') \<and>
    (rp_active W' \<longrightarrow> st = ''active'' \<or> st = ''swapoff_failed'' \<or>
      rp_active W \<and> st \<in> {''unsupported'', ''invalid_size'', ''encryption_required'', ''zram_not_ready''}) \<and>
    (rp_file W' \<longrightarrow> st \<in> {''active'', ''swapoff_failed'', ''file_error'', ''unsupported'', ''invalid_size'',
      ''encryption_required'', ''zram_not_ready''})"
proof -
  obtain code W' where m: "rp_main E W = Some (code, W')" and h: "honest (rp_active W) (code, W')"
    using main_honest [OF assms, of W] unfolding ends_honest_def by force
  then obtain st where "rp_props W' kStatusProp = Some st" "code = 0 \<longleftrightarrow> st = ''active'' \<or> st = ''disabled''"
      "rp_active W' \<longrightarrow> st = ''active'' \<or> st = ''swapoff_failed'' \<or> rp_active W \<and> st \<in> refusals"
      "rp_file W' \<longrightarrow> st \<in> file_statuses"
    unfolding honest_def prod.case by (elim exE conjE) (rule that)
  then show ?thesis
    unfolding refusals_def file_statuses_def
    by (intro exI [of _ code] exI [of _ W'] exI [of _ st] conjI m)
qed

text \<open>The example device, with a swap left on from before and a size that is not allowed.\<close>

theorem rp_status_honest_witness:
  "\<exists>code W'. rp_main (example_rp_env\<lparr>size_prop := Some 77\<rparr>) (example_rp_world\<lparr>rp_active := True\<rparr>) = Some (code, W') \<and>
    code \<noteq> 0 \<and> rp_active W' \<and> rp_props W' kStatusProp = Some ''invalid_size''"
proof -
  let ?E = "example_rp_env\<lparr>size_prop := Some 77\<rparr>" and ?W = "example_rp_world\<lparr>rp_active := True\<rparr>"
  have env: "wait_seq ?E 3 \<noteq> Wait_intr" "swap_contract ?E" "\<forall>k v. set_prop_ok ?E k v"
    by (simp_all add: example_rp_env_def swap_contract_def)
  have run: "rp_main ?E ?W = Some (Fail ?E ''invalid_size'' ?W)"
    by (simp add: rp_main_def IsAllowedSize_def example_rp_env_def)
  obtain code W' st where m: "rp_main ?E ?W = Some (code, W')" "rp_props W' kStatusProp = Some st"
      "code = 0 \<longleftrightarrow> st = ''active'' \<or> st = ''disabled''"
    using rp_status_honest [OF env(3,2,1), of ?W] by (elim exE conjE) (rule that)
  have W': "W' = snd (PublishStatus ?E 0 ''invalid_size'' ?W)"
    using m(1) run by (simp add: Fail_def)
  have "st = ''invalid_size''"
    using publish_props(1) [OF publish_total [OF env(3)], of 0 "''invalid_size''" ?W] m(2) by (simp add: W')
  then show ?thesis
    using m by (intro exI [of _ code] exI [of _ W']) (simp add: W')
qed

text \<open>
  C12: success is verified. When the program ends with exit code 0 the requested size was one of the
  allowed ones. For size 0 swap and file are gone. Otherwise the swap is active on a file of exactly
  the requested size, the kernel's table shows it at most 1 MiB smaller than requested and with a
  priority below the lowest of zram, the published size is the one in the table, and the file was
  written with zeroes in adjacent chunks of at most 4 MiB from the first byte that was not known to
  be allocated to its end.
\<close>

theorem rp_success_verified:
  assumes "rp_main E W = Some (0, W')" and "swap_contract E"
  shows "\<exists>m. size_prop E = Some m \<and> IsAllowedSize m \<and>
    (if m = 0 then \<not> rp_active W' \<and> \<not> rp_file W' \<and> rp_props W' kStatusProp = Some ''disabled''
     else \<exists>z e st cs. WaitForZramPriority E = Some z \<and> FindRamPlusSwap (swaps_now E) = Some e \<and> accepted m z e \<and>
       rp_active W' \<and> rp_file W' \<and> rp_size W' = ucast m * kBytesPerMib \<and> fstat_res E = Some st \<and>
       rp_written W' = rp_written W @ cs \<and>
       covers (unat (zero_from st (ucast m * kBytesPerMib))) (unat (ucast m * kBytesPerMib :: u64)) cs \<and>
       rp_props W' kStatusProp = Some ''active'' \<and>
       rp_props W' kActiveSizeProp = Some (dec_nat (unat (sw_size_kb e))))"
proof -
  have no [simp]: "Fail E st V \<noteq> (0, V')" for st V V'
    using fail_code(1) [of E st V] by (cases "Fail E st V") simp
  have supported: "bool_prop E kSupportedProp"
    using assms(1) by (rule_tac ccontr) (simp add: rp_main_def)
  obtain ok W1 where d: "DisableSwap E W = (ok, W1)" by fastforce
  obtain ok2 W2 where r: "RemoveSwapFile E W1 = (ok2, W2)" by fastforce
  have written: "rp_written W1 = rp_written W"
    using d by (auto simp: DisableSwap_def split: option.splits)
  obtain m where m: "size_prop E = Some m"
    using assms(1) by (cases "size_prop E") (simp_all add: rp_main_def supported)
  have allowed: "IsAllowedSize m"
    using assms(1) by (rule_tac ccontr) (simp add: rp_main_def supported m)
  note main = assms(1) [unfolded rp_main_def, simplified supported m allowed d, simplified]
  show ?thesis
  proof (cases "m = 0")
    case True
    then have oks: "ok" "ok2" and "fst (PublishStatus E 0 ''disabled'' W2)" "W' = snd (PublishStatus E 0 ''disabled'' W2)"
      using main by (auto simp: r split_beta split: if_splits)
    then show ?thesis
      using True m allowed publish_props(1) [of E 0 "''disabled''" W2] disable_swap(1) [OF assms(2) d] remove_swap_file(1,2) [OF assms(2) r]
      by simp
  next
    case False
    obtain z where z: "WaitForZramPriority E = Some z" and act: "rp_activate E m z W1 = Some (0, W')"
      using main False by (auto split: if_splits option.splits)
    from activate_success [OF act] show ?thesis
      using m allowed z False written by (metis (no_types, lifting))
  qed
qed

theorem rp_success_verified_witness:
  "\<exists>W'. rp_main example_rp_env example_rp_world = Some (0, W') \<and> rp_active W' \<and>
    rp_props W' kActiveSizeProp = Some (dec_nat 2097148)"
proof -
  let ?E = example_rp_env
  have prep: "PrepareSwapFile ?E (2048 * kBytesPerMib) example_rp_world =
      (kOk, example_rp_world\<lparr>rp_file := True, rp_size := 2048 * kBytesPerMib\<rparr>)"
    by (simp add: PrepareSwapFile_def HasAllocationSpace_def WriteZeroes.simps rp_consts example_rp_env_def Let_def)
  have off: "DisableSwap ?E example_rp_world = (True, example_rp_world)"
    by (simp add: DisableSwap_def example_rp_env_def example_rp_world_def)
  have fields: "bool_prop ?E k" "size_prop ?E = Some 2048" "EnsureDataDirectory ?E" "swapon_ok ?E" "set_prop_ok ?E k v" for k v
    by (simp_all add: example_rp_env_def EnsureDataDirectory_def)
  obtain W' where W': "rp_main ?E example_rp_world = Some (0, W')"
    using prep
    by (auto simp: rp_main_def rp_activate_def rp_verify_def fields off example_zram example_mkswap example_entry IsAllowedSize_def
        kKilobytesPerMib_def kSwapSizeToleranceKb_def PublishStatus_def SetProperty_def)
  moreover have "swap_contract ?E"
    by (simp add: swap_contract_def example_rp_env_def)
  ultimately show ?thesis
    using rp_success_verified [OF W'] by (auto simp: fields example_entry)
qed

text \<open>
  C38: four GiB of storage stay free. For sizes up to 8 GiB and a file system whose free space in
  bytes fits 64 bits, growing the file is allowed exactly when the missing bytes and the reserve fit
  into the free space; no step of the 64-bit computation wraps.
\<close>

theorem allocation_keeps_reserve:
  assumes "unat requested \<le> 8192 * 1048576" and "current < requested"
    and "statvfs_res E = Some (f_bavail, f_frsize)" and "unat f_bavail * unat f_frsize < 2 ^ 64"
  shows "HasAllocationSpace E current requested =
    Some (unat requested - unat current + 4096 * 1048576 \<le> unat f_bavail * unat f_frsize)"
proof -
  have d: "unat (requested - current) = unat requested - unat current"
    using assms(2) by (simp add: unat_sub less_imp_le)
  have k: "unat (kDefaultReserveMib * kBytesPerMib) = 4294967296"
    by (simp add: rp_consts)
  have "unat requested - unat current + 4294967296 < 18446744073709551616"
    using assms(1) by linarith
  then have "unat (requested - current + kDefaultReserveMib * kBytesPerMib) = unat requested - unat current + 4294967296"
    using d k by (simp add: unat_word_ariths(1))
  moreover have "unat (f_bavail * f_frsize) = unat f_bavail * unat f_frsize"
    using assms(4) by (simp add: unat_word_ariths(2))
  moreover have "\<not> requested \<le> current"
    using assms(2) by simp
  ultimately show ?thesis
    using assms(3) unfolding HasAllocationSpace_def by (simp add: word_le_nat_alt [of "_ + _ * _"])
qed

theorem allocation_keeps_reserve_witness:
  "HasAllocationSpace example_rp_env 0 2147483648 = Some True"
proof -
  have "statvfs_res example_rp_env = Some (10000000, 4096)"
    by (simp add: example_rp_env_def)
  from allocation_keeps_reserve [OF _ _ this, of 2147483648 0] show ?thesis
    by simp
qed

end
