(* ===== verification/Ram_Plus_Boot.thy ===== *)
theory Ram_Plus_Boot
  imports Ram_Plus_Setup
begin

text \<open>
  RAM Plus over one boot (\<^verbatim>\<open>init.axion.ramplus.rc\<close>): the properties are reset when the persistent ones
  are loaded, the set-up tool is started once the boot has completed if the device supports it, and
  when it has stopped the low-memory killer reads the swap table again. Shown: whatever happens in
  the tool, as long as properties can be set, the size it publishes is the size the low-memory
  killer works with.
\<close>

section \<open>Definitions\<close>

definition load_persist_props_action :: "rp_world \<Rightarrow> rp_world" where
  "load_persist_props_action W =
    W\<lparr>rp_props := (rp_props W)(kActiveSizeProp \<mapsto> ''0'', kStatusProp \<mapsto> ''disabled'')\<rparr>"

text \<open>
  \<open>supp\<close> is the text of the property \<^verbatim>\<open>persist.sys.ax_rp_supp\<close> when the boot has completed: the trigger
  compares it with \<open>true\<close>, while the tool reads the same property as a truth value. \<open>swaps\<close> is the
  swap table the low-memory killer reads, by whether the RAM Plus swap is active. Its copy of the
  size is 0 until it reads the table.
\<close>

definition rp_boot :: "rp_env \<Rightarrow> string \<Rightarrow> (bool \<Rightarrow> string option) \<Rightarrow> rp_world \<Rightarrow> (rp_world \<times> int) option" where
  "rp_boot E supp swaps W =
    (let W = load_persist_props_action W in
     if supp = ''true'' then
       do {
         (code, W) \<leftarrow> rp_main E W;
         (ok, gRamPlusSwapKb) \<leftarrow> lmkd_update_props_hook (swaps (rp_active W));
         Some (W, gRamPlusSwapKb)
       }
     else Some (W, 0))"

text \<open>
  The kernel's swap table: rows of columns separated by blanks and tabs below a header line, with a row
  for the swap file exactly while it is active, the same for both programs.
\<close>

definition swaps_contract :: "rp_env \<Rightarrow> (bool \<Rightarrow> string option) \<Rightarrow> bool" where
  "swaps_contract E swaps \<longleftrightarrow> swaps True = swaps_now E \<and>
    (\<exists>header rows. CHR 0x0A \<notin> set header \<and> length header < 511 \<and>
      (\<forall>b. (\<forall>x \<in> set (rows b). row_ok x) \<and> ((\<exists>x \<in> set (rows b). sw_path (row_entry x) = kSwapPath) \<longleftrightarrow> b) \<and>
        swaps b = Some (header @ NL @ concat (map show_row (rows b)))))"

text \<open>An outcome of the tool whose published size is that of the active swap \<open>e\<close>, or 0.\<close>

definition sized :: "SwapEntry \<Rightarrow> s32 \<times> rp_world \<Rightarrow> bool" where
  "sized e = (\<lambda>(code, W). rp_props W kActiveSizeProp =
    Some (dec_nat (if rp_active W then unat (sw_size_kb e) else 0)))"

section \<open>The published size\<close>

lemma dec_nat_0: "dec_nat 0 = ''0''"
  by code_simp

lemma publish_sized:
  assumes "\<forall>k v. set_prop_ok E k v"
  shows "rp_props (snd (PublishStatus E kb st W)) kActiveSizeProp = Some (dec_nat (unat kb))"
  using publish_props(2) [OF publish_total [OF assms]] .

lemma fail_sized:
  assumes "\<forall>k v. set_prop_ok E k v" and "\<not> rp_active W"
  shows "sized e (Fail E st W)"
  using publish_sized [OF assms(1)] assms(2) by (simp add: sized_def Fail_def)

lemma fail_prepared_sized:
  assumes "\<forall>k v. set_prop_ok E k v" and "swap_contract E" and "\<not> rp_active W"
  shows "sized e (FailPreparedSwap E st W)"
proof -
  obtain ok W' where r: "RemoveSwapFile E W = (ok, W')" by fastforce
  have "\<not> rp_active W'"
    using remove_swap_file(2) [OF assms(2) r] assms(3) by simp
  then show ?thesis
    using fail_sized [OF assms(1)] by (simp add: FailPreparedSwap_def r)
qed

lemma fail_active_sized:
  assumes "\<forall>k v. set_prop_ok E k v" and "swap_contract E" and "rp_active W"
  shows "sized e (FailActiveSwap E (sw_size_kb e) st W)"
proof -
  obtain ok W' where d: "DisableSwap E W = (ok, W')" by fastforce
  have "rp_active W'" if "\<not> ok"
    using d that assms(3) by (auto simp: DisableSwap_def split: option.splits)
  then show ?thesis
    using fail_prepared_sized [OF assms(1,2)] disable_swap(1) [OF assms(2) d] publish_sized [OF assms(1)]
    by (auto simp: FailActiveSwap_def d sized_def)
qed

lemma verify_sized:
  assumes "\<forall>k v. set_prop_ok E k v" and "swap_contract E" and "rp_active W" and "FindRamPlusSwap (swaps_now E) = Some e"
  shows "sized e (rp_verify E m z W)"
  using fail_active_sized [OF assms(1-3)] publish_sized [OF assms(1)] publish_total [OF assms(1)] assms(3)
  by (simp add: rp_verify_def assms(4) Let_def split_beta) (simp add: sized_def)

lemma activate_sized:
  assumes "\<forall>k v. set_prop_ok E k v" and "swap_contract E" and "\<not> rp_active W"
    and "FindRamPlusSwap (swaps_now E) = Some e" and "rp_activate E m z W = Some x"
  shows "sized e x"
proof -
  obtain r W1 where p: "PrepareSwapFile E (ucast m * kBytesPerMib) W = (r, W1)" by fastforce
  then obtain f sz cs where "W1 = W\<lparr>rp_file := f, rp_size := sz, rp_written := rp_written W @ cs\<rparr>"
    using prepare_outcome [OF p] by metis
  then have "\<not> rp_active W1"
    using assms(3) by simp
  then show ?thesis
    using assms(5) fail_prepared_sized [OF assms(1,2)] verify_sized [OF assms(1,2) _ assms(4), of "W1\<lparr>rp_active := True\<rparr>"]
    by (auto simp: rp_activate_def p bind_eq_Some_conv split: PrepareResult.splits if_splits)
qed

lemma main_sized:
  assumes "\<forall>k v. set_prop_ok E k v" and "swap_contract E" and "\<not> rp_active W"
    and "FindRamPlusSwap (swaps_now E) = Some e" and "rp_main E W = Some x"
  shows "sized e x"
proof -
  obtain ok W1 where d: "DisableSwap E W = (ok, W1)" by fastforce
  obtain ok2 W2 where r: "RemoveSwapFile E W1 = (ok2, W2)" by fastforce
  have na: "\<not> rp_active W1" "\<not> rp_active W2"
    using disable_swap(3) [OF assms(2) d] remove_swap_file(2) [OF assms(2) r] assms(3) by auto
  have "sized e (c, snd (PublishStatus E 0 ''disabled'' W2))" for c
    using publish_sized [OF assms(1)] na(2) by (simp add: sized_def)
  then show ?thesis
    using assms(3,5) na fail_sized [OF assms(1)] activate_sized [OF assms(1,2) na(1) assms(4)]
    by (auto simp: rp_main_def d r split_beta split: option.splits if_splits)
qed

section \<open>The size the low-memory killer reads\<close>

lemma contract_table:
  assumes "swaps_contract E swaps"
  shows "\<exists>e. FindRamPlusSwap (swaps_now E) = Some e \<and>
    lmkd_update_props_hook (swaps b) = Some (True, if b then int (unat (sw_size_kb e)) else 0)"
proof -
  obtain header rows where h: "CHR 0x0A \<notin> set header" "length header < 511" and now: "swaps True = swaps_now E"
    and rows: "\<And>b. \<forall>x \<in> set (rows b). row_ok x" "\<And>b. (\<exists>x \<in> set (rows b). sw_path (row_entry x) = kSwapPath) \<longleftrightarrow> b"
      "\<And>b. swaps b = Some (header @ NL @ concat (map show_row (rows b)))"
    using assms unfolding swaps_contract_def by blast
  have kb: "ReadRamPlusSwapKb (swaps b) = Some (case List.find (\<lambda>e. sw_path e = kSwapPath) (map row_entry (rows b)) of
      None \<Rightarrow> 0 | Some e \<Rightarrow> int (unat (sw_size_kb e)))" for b
    unfolding rows(3) [of b] using h rows(1) [of b] by (simp add: ReadRamPlusSwapKb_def header_skipped lmkd_rows_show)
  have find: "FindRamPlusSwap (swaps b) = List.find (\<lambda>e. sw_path e = kSwapPath) (map row_entry (rows b))" for b
    unfolding rows(3) [of b] using h rows(1) [of b]
    by (simp add: FindRamPlusSwap_def ReadSwapEntries_def header_skipped read_swap_rows_show)
  have none: "List.find (\<lambda>e. sw_path e = kSwapPath) (map row_entry (rows b)) = None \<longleftrightarrow> \<not> b" for b
    using rows(2) [of b] by (auto simp: find_None_iff)
  obtain e where e: "List.find (\<lambda>e. sw_path e = kSwapPath) (map row_entry (rows True)) = Some e"
    using none [of True] by blast
  then have "FindRamPlusSwap (swaps_now E) = Some e"
    using find [of True] by (simp add: now)
  moreover have "lmkd_update_props_hook (swaps b) = Some (True, if b then int (unat (sw_size_kb e)) else 0)"
    using e none [of False] by (cases b) (simp_all add: lmkd_update_props_hook_def kb)
  ultimately show ?thesis by blast
qed

text \<open>The tables of a device with zram, with and without the swap file.\<close>

definition example_swaps_table :: "bool \<Rightarrow> string option" where
  "example_swaps_table b = Some (if b then example_swaps else swaps_header @ NL @ concat (map show_row [zram_row]))"

lemma example_swaps_contract: "swaps_contract example_rp_env example_swaps_table"
proof -
  let ?rows = "\<lambda>b. if b then [zram_row, file_row] else [zram_row]"
  have "sw_path (row_entry zram_row) \<noteq> kSwapPath" "sw_path (row_entry file_row) = kSwapPath"
    by (simp_all add: example_rows) (simp add: kSwapPath_def)
  moreover have "example_swaps_table b = Some (swaps_header @ NL @ concat (map show_row (?rows b)))" for b
    by (simp add: example_swaps_table_def example_swaps_def)
  moreover have "swaps_now example_rp_env = Some example_swaps" "example_swaps_table True = Some example_swaps"
    by (simp_all add: example_rp_env_def example_swaps_table_def)
  ultimately show ?thesis
    unfolding swaps_contract_def using example_rows(1-4)
    by (intro conjI exI [of _ swaps_header] exI [of _ ?rows]) simp_all
qed

section \<open>Properties\<close>

text \<open>
  C16: over a boot the set-up tool and the low-memory killer agree. Provided that every property can
  be set, that \<open>swapoff\<close> and \<open>unlink\<close> do not report a missing swap area or file when it is there,
  that both programs see the kernel's swap table, that no swap is on when the boot starts and that
  \<open>waitpid\<close> is not interrupted for ever, the boot sequence ends, whatever text the support property
  has. Whether the tool was started or not, and whether it succeeded, refused, or failed at any other
  call, the size in the property is the size the low-memory killer has read; a size other than 0
  comes with the status \<open>active\<close> or \<open>swapoff_failed\<close>, and without an active swap the killer's
  free-swap value passes unchanged.
\<close>

theorem ram_plus_boot_agrees:
  assumes "\<forall>k v. set_prop_ok E k v" and "swap_contract E" and "swaps_contract E swaps"
    and "\<not> rp_active W" and "wait_seq E n \<noteq> Wait_intr"
  shows "\<exists>W' g st. rp_boot E supp swaps W = Some (W', g) \<and> rp_props W' kActiveSizeProp = Some (dec_nat (nat g)) \<and>
    rp_props W' kStatusProp = Some st \<and> (g \<noteq> 0 \<longrightarrow> st = ''active'' \<or> st = ''swapoff_failed'') \<and>
    (\<not> rp_active W' \<longrightarrow> lmkd_adjust_free_swap_hook g fs ea cr crd adj = Some adj)"
proof (cases "supp = ''true''")
  case False
  then show ?thesis
    by (simp add: rp_boot_def load_persist_props_action_def kActiveSizeProp_def kStatusProp_def
        lmkd_adjust_free_swap_hook_def dec_nat_0)
next
  case True
  let ?W = "load_persist_props_action W"
  have na: "\<not> rp_active ?W"
    using assms(4) by (simp add: load_persist_props_action_def)
  obtain code W' where m: "rp_main E ?W = Some (code, W')" and h: "honest (rp_active ?W) (code, W')"
    using main_honest [OF assms(1,2,5), of ?W] unfolding ends_honest_def by force
  from h na obtain st where st: "rp_props W' kStatusProp = Some st" "rp_active W' \<longrightarrow> st = ''active'' \<or> st = ''swapoff_failed''"
    unfolding honest_def by blast
  obtain e where e: "FindRamPlusSwap (swaps_now E) = Some e"
      "lmkd_update_props_hook (swaps (rp_active W')) = Some (True, if rp_active W' then int (unat (sw_size_kb e)) else 0)"
    using contract_table [OF assms(3)] by blast
  have "rp_props W' kActiveSizeProp = Some (dec_nat (if rp_active W' then unat (sw_size_kb e) else 0))"
    using main_sized [OF assms(1,2) na e(1) m] by (simp add: sized_def)
  then show ?thesis
    using True m st e(2) by (simp add: rp_boot_def lmkd_adjust_free_swap_hook_def)
qed

theorem ram_plus_boot_agrees_witness:
  "\<exists>W' g. rp_boot example_rp_env ''true'' example_swaps_table example_rp_world = Some (W', g) \<and>
    rp_props W' kActiveSizeProp = Some (dec_nat (nat g))"
proof -
  have "wait_seq example_rp_env 3 \<noteq> Wait_intr" "swap_contract example_rp_env" "\<not> rp_active example_rp_world"
    "\<forall>k v. set_prop_ok example_rp_env k v"
    by (simp_all add: example_rp_env_def example_rp_world_def swap_contract_def)
  from ram_plus_boot_agrees [OF this(4,2) example_swaps_contract this(3,1), of "''true''"] show ?thesis
    by blast
qed

end
