(* ===== verification/Axion_Props.thy ===== *)
theory Axion_Props
  imports Axion_Prelude
begin

text \<open>
  The generator of the build properties (\<^verbatim>\<open>gen_axion_props.py\<close>): it writes the pairs of its command
  line to a property file, one to a line. The answers of the file system are parameters. Shown: which
  command lines write a file, where and what it holds, what the others leave behind, and that the
  text of the file determines the pairs.
\<close>

section \<open>Definitions\<close>

text \<open>\<open>os.path.dirname\<close>: up to the last slash, without trailing slashes unless there is nothing else.\<close>

definition rstrip_slash :: "string \<Rightarrow> string" where
  "rstrip_slash s = rev (dropWhile (\<lambda>c. c = CHR ''/'') (rev s))"

definition dirname :: "string \<Rightarrow> string" where
  "dirname p =
    (let head = rev (dropWhile (\<lambda>c. c \<noteq> CHR ''/'') (rev p))
     in if head \<noteq> [] \<and> (\<exists>c \<in> set head. c \<noteq> CHR ''/'') then rstrip_slash head else head)"

text \<open>What is left in the file system: a directory to exist, and a file with its contents.\<close>

record gen_files =
  made_dir :: "string option"
  out_file :: "(string \<times> string) option"

datatype gen_exit = Sys_exit nat | Raised

text \<open>One pair of the command line: its line in the file, if it holds an equals sign.\<close>

definition prop_line :: "string \<Rightarrow> string" where
  "prop_line pair =
    (if CHR ''='' \<in> set pair
     then (case split_at_char (CHR ''='') pair of
             Some (key, val) \<Rightarrow> key @ ''='' @ val @ NL
           | None \<Rightarrow> [])
     else [])"

text \<open>The loop over the pairs, which writes to the open file.\<close>

fun write_pairs :: "string list \<Rightarrow> string \<Rightarrow> string" where
  "write_pairs [] f = f"
| "write_pairs (pair # pairs) f = write_pairs pairs (f @ prop_line pair)"

definition gen_main ::
  "(string \<Rightarrow> bool) \<Rightarrow> (string \<Rightarrow> bool) \<Rightarrow> string list \<Rightarrow> gen_files \<Rightarrow> gen_exit \<times> gen_files" where
  "gen_main makedirs_ok open_ok argv F =
    (if length argv < 3 then (Sys_exit 1, F)
     else
       let output_path = argv ! 1 in
       if output_path = [] \<or> output_path = ''/axion_build.props.prop'' then (Sys_exit 0, F)
       else
         let out_dir = dirname output_path in
         if out_dir \<noteq> [] \<and> \<not> makedirs_ok out_dir then (Raised, F)
         else
           let F = (if out_dir \<noteq> [] then F\<lparr>made_dir := Some out_dir\<rparr> else F) in
           if \<not> open_ok output_path then (Raised, F)
           else (Sys_exit 0, F\<lparr>out_file := Some (output_path, write_pairs (drop 2 argv) [])\<rparr>))"

section \<open>Lines\<close>

lemma split_at_char_join: "split_at_char c s = Some (k, v) \<Longrightarrow> s = k @ c # v"
proof -
  assume "split_at_char c s = Some (k, v)"
  then have "takeWhile (\<lambda>x. x \<noteq> c) s = k" "dropWhile (\<lambda>x. x \<noteq> c) s = c # v"
    by (auto simp: split_at_char_def dropWhile_eq_Cons_conv split: list.splits)
  then show ?thesis
    using takeWhile_dropWhile_id [of "\<lambda>x. x \<noteq> c" s] by simp
qed

lemma split_at_char_None: "split_at_char c s = None \<longleftrightarrow> c \<notin> set s"
proof -
  have "split_at_char c s = None \<longleftrightarrow> dropWhile (\<lambda>x. x \<noteq> c) s = []"
    by (cases "dropWhile (\<lambda>x. x \<noteq> c) s") (simp_all only: split_at_char_def list.case, simp_all)
  then show ?thesis by (auto simp: dropWhile_eq_Nil_conv)
qed

lemma prop_line_eq: "prop_line pair = (if CHR ''='' \<in> set pair then pair @ NL else [])"
proof (cases "split_at_char (CHR ''='') pair")
  case None
  then show ?thesis by (simp add: prop_line_def split_at_char_None)
next
  case (Some kv)
  obtain k v where kv: "kv = (k, v)" by fastforce
  then show ?thesis
    using split_at_char_join [of "CHR ''=''" pair k v] Some by (auto simp: prop_line_def)
qed

lemma write_pairs_eq:
  "write_pairs pairs f = f @ concat (map (\<lambda>p. p @ NL) (filter (\<lambda>p. CHR ''='' \<in> set p) pairs))"
  by (induction pairs arbitrary: f) (simp_all add: prop_line_eq)

text \<open>Lines without line breaks can be told apart in a text.\<close>

lemma line_inject:
  assumes "CHR 0x0A \<notin> set w" and "CHR 0x0A \<notin> set v" and "w @ NL @ a = v @ NL @ b"
  shows "w = v" and "a = b"
proof -
  have "takeWhile (\<lambda>c. c \<noteq> CHR 0x0A) (u @ NL @ s) = u" if "CHR 0x0A \<notin> set u" for u s
    using that by (auto simp: NL_def takeWhile_append)
  from this [OF assms(1), of a] this [OF assms(2), of b] show "w = v"
    using assms(3) by simp
  then show "a = b"
    using assms(3) by simp
qed

lemma lines_inject:
  assumes "\<forall>w \<in> set ws \<union> set vs. CHR 0x0A \<notin> set w"
    and "concat (map (\<lambda>p. p @ NL) ws) = concat (map (\<lambda>p. p @ NL) vs)"
  shows "ws = vs"
  using assms
proof (induction ws arbitrary: vs)
  case Nil
  then show ?case by (cases vs) (auto simp: NL_def)
next
  case (Cons w ws)
  then obtain v vs' where vs: "vs = v # vs'"
    by (cases vs) (auto simp: NL_def)
  have "w = v" "concat (map (\<lambda>p. p @ NL) ws) = concat (map (\<lambda>p. p @ NL) vs')"
    using line_inject [of w v "concat (map (\<lambda>p. p @ NL) ws)" "concat (map (\<lambda>p. p @ NL) vs')"] Cons.prems
    by (simp_all add: vs)
  then show ?case
    using Cons.IH [of vs'] Cons.prems(1) by (simp add: vs)
qed

section \<open>The directory of a path\<close>

lemma rstrip_slash_split: "\<exists>sl. s = rstrip_slash s @ sl \<and> (\<forall>c \<in> set sl. c = CHR ''/'')"
proof -
  let ?P = "\<lambda>c. c = CHR ''/''"
  have "s = rev (takeWhile ?P (rev s) @ dropWhile ?P (rev s))"
    by simp
  then have "s = rstrip_slash s @ rev (takeWhile ?P (rev s))"
    by (simp only: rstrip_slash_def rev_append)
  moreover have "\<forall>c \<in> set (rev (takeWhile ?P (rev s))). c = CHR ''/''"
    by (auto dest: set_takeWhileD)
  ultimately show ?thesis by blast
qed

text \<open>A path is its directory, slashes, and a last component without one.\<close>

lemma dirname_split:
  "\<exists>sl base. p = dirname p @ sl @ base \<and> (\<forall>c \<in> set sl. c = CHR ''/'') \<and> CHR ''/'' \<notin> set base"
proof -
  let ?P = "\<lambda>c. c \<noteq> CHR ''/''"
  define head base where "head = rev (dropWhile ?P (rev p))" and "base = rev (takeWhile ?P (rev p))"
  have "p = rev (takeWhile ?P (rev p) @ dropWhile ?P (rev p))"
    by simp
  then have p: "p = head @ base"
    by (simp only: head_def base_def rev_append)
  have base: "CHR ''/'' \<notin> set base"
    by (auto simp: base_def dest: set_takeWhileD)
  have dir: "dirname p = (if head \<noteq> [] \<and> (\<exists>c \<in> set head. c \<noteq> CHR ''/'') then rstrip_slash head else head)"
    unfolding dirname_def Let_def head_def by (rule refl)
  obtain sl where sl: "head = rstrip_slash head @ sl" "\<forall>c \<in> set sl. c = CHR ''/''"
    using rstrip_slash_split by blast
  show ?thesis
  proof (cases "dirname p = head")
    case True
    then show ?thesis using p base by (intro exI [of _ "[]"] exI [of _ base]) simp
  next
    case False
    then have "dirname p = rstrip_slash head" using dir by (simp split: if_splits)
    then have "dirname p @ sl = head" by (simp only: sl(1) [symmetric])
    then have "(dirname p @ sl) @ base = p" by (simp only: p [symmetric])
    then show ?thesis
      using base sl(2) by (intro exI [of _ sl] exI [of _ base]) (simp only: append_assoc not_False_eq_True simp_thms)
  qed
qed

section \<open>Properties\<close>

text \<open>
  C39: what the generator does with every command line. The exit code is 1 exactly when no pair is
  given. With a real path, a directory that exists or can be made and a file that can be opened, it
  ends with 0, has made the directory of the path (the part before the slashes and the last
  component), and the file holds, in order, one line for each argument with an equals sign, as it was
  given, and nothing for the others. In every other case no file is written: an empty or placeholder
  path ends with 0 and leaves everything alone, a failing directory or file raises. For arguments
  without line breaks the text determines the arguments with an equals sign.
\<close>

theorem generator_output:
  assumes "gen_main makedirs_ok open_ok argv F = (r, F')"
  shows "(r = Sys_exit 1 \<longleftrightarrow> length argv < 3) \<and>
    (if 3 \<le> length argv \<and> argv ! 1 \<notin> {[], ''/axion_build.props.prop''} \<and>
        (dirname (argv ! 1) = [] \<or> makedirs_ok (dirname (argv ! 1))) \<and> open_ok (argv ! 1)
     then r = Sys_exit 0 \<and> F' = F\<lparr>
         made_dir := if dirname (argv ! 1) = [] then made_dir F else Some (dirname (argv ! 1)),
         out_file := Some (argv ! 1, concat (map (\<lambda>p. p @ NL) (filter (\<lambda>p. CHR ''='' \<in> set p) (drop 2 argv))))\<rparr>
     else out_file F' = out_file F \<and>
       (r = Raised \<longleftrightarrow> 3 \<le> length argv \<and> argv ! 1 \<notin> {[], ''/axion_build.props.prop''}) \<and> (r \<noteq> Raised \<longrightarrow> F' = F)) \<and>
    (\<exists>sl base. argv ! 1 = dirname (argv ! 1) @ sl @ base \<and> (\<forall>c \<in> set sl. c = CHR ''/'') \<and> CHR ''/'' \<notin> set base) \<and>
    (\<forall>qs. (\<forall>p \<in> set (drop 2 argv) \<union> set qs. CHR 0x0A \<notin> set p) \<and> write_pairs qs [] = write_pairs (drop 2 argv) [] \<longrightarrow>
      filter (\<lambda>p. CHR ''='' \<in> set p) qs = filter (\<lambda>p. CHR ''='' \<in> set p) (drop 2 argv))"
proof (intro conjI)
  show "r = Sys_exit 1 \<longleftrightarrow> length argv < 3"
    using assms by (auto simp: gen_main_def Let_def split: if_splits)
  show "if 3 \<le> length argv \<and> argv ! 1 \<notin> {[], ''/axion_build.props.prop''} \<and>
        (dirname (argv ! 1) = [] \<or> makedirs_ok (dirname (argv ! 1))) \<and> open_ok (argv ! 1)
     then r = Sys_exit 0 \<and> F' = F\<lparr>
         made_dir := if dirname (argv ! 1) = [] then made_dir F else Some (dirname (argv ! 1)),
         out_file := Some (argv ! 1, concat (map (\<lambda>p. p @ NL) (filter (\<lambda>p. CHR ''='' \<in> set p) (drop 2 argv))))\<rparr>
     else out_file F' = out_file F \<and>
       (r = Raised \<longleftrightarrow> 3 \<le> length argv \<and> argv ! 1 \<notin> {[], ''/axion_build.props.prop''}) \<and> (r \<noteq> Raised \<longrightarrow> F' = F)"
    using assms by (auto simp: gen_main_def Let_def write_pairs_eq split: if_splits)
  show "\<exists>sl base. argv ! 1 = dirname (argv ! 1) @ sl @ base \<and> (\<forall>c \<in> set sl. c = CHR ''/'') \<and> CHR ''/'' \<notin> set base"
    by (rule dirname_split)
  show "\<forall>qs. (\<forall>p \<in> set (drop 2 argv) \<union> set qs. CHR 0x0A \<notin> set p) \<and> write_pairs qs [] = write_pairs (drop 2 argv) [] \<longrightarrow>
      filter (\<lambda>p. CHR ''='' \<in> set p) qs = filter (\<lambda>p. CHR ''='' \<in> set p) (drop 2 argv)"
    by (auto simp: write_pairs_eq intro!: lines_inject)
qed

theorem generator_output_witness:
  "gen_main (\<lambda>_. True) (\<lambda>_. True) [''gen'', ''out/axion.prop'', ''ro.axion.maintainer=a=b'', ''skipped'']
      \<lparr>made_dir = None, out_file = None\<rparr> =
    (Sys_exit 0, \<lparr>made_dir = Some ''out'', out_file = Some (''out/axion.prop'', ''ro.axion.maintainer=a=b'' @ NL)\<rparr>)"
proof -
  let ?argv = "[''gen'', ''out/axion.prop'', ''ro.axion.maintainer=a=b'', ''skipped'']"
  let ?F = "\<lparr>made_dir = None, out_file = None\<rparr> :: gen_files"
  obtain r F' where run: "gen_main (\<lambda>_. True) (\<lambda>_. True) ?argv ?F = (r, F')"
    by fastforce
  have dir: "dirname ''out/axion.prop'' = ''out''"
    by (simp add: dirname_def rstrip_slash_def)
  from generator_output [OF run, THEN conjunct2, THEN conjunct1] show ?thesis
    unfolding run by (simp add: dir)
qed

end
