(* ===== verification/Spec2Isabelle.thy ===== *)
theory Spec2Isabelle
  imports Hook_Dispatch Dragonite_Lock Ram_Plus_Boot Axion_Props
begin

text \<open>
  Verification of the Axion common device tree: the kernel modules (\<^verbatim>\<open>src/kernel/modules\<close>), which
  are the BORE scheduler extension (\<^verbatim>\<open>bore_sched\<close>), the latency-nice scheduler extension
  (\<^verbatim>\<open>latency_sched\<close>) and the AxDragonite performance driver (\<^verbatim>\<open>ax_dragonite\<close>), and the user-space
  programs of RAM Plus (\<^verbatim>\<open>src/config/ramplus\<close>) with their init script, and the generator of the build
  properties (\<^verbatim>\<open>src/build\<close>).

  \<^bold>\<open>The program.\<close> The two scheduler modules attach probes to vendor hooks of the fair scheduler and
  keep per-task data in the reserved words of \<open>sched_entity\<close>. BORE measures how long a task runs
  between sleeps (its burst), turns the run time into a penalty by a fixed-point logarithm, smooths
  it over bursts, lets a forked task inherit the mean penalty of its relatives through a cached
  average, and adds the penalty's score to the task's priority. Latency-nice gives each task a class
  and an offset from its static priority and clamps the difference of two offsets at wake-ups and
  ticks. AxDragonite is driven through proc files: user space writes rules, and the driver pins or
  releases threads by name, boosts thread groups and pins the kernel's swap threads. The boost goes
  through \<open>set_user_nice\<close>, which both scheduler modules react to. RAM Plus adds a swap file on the
  data partition: a set-up tool allocates, formats, activates and verifies it and publishes the
  outcome in system properties, and a hook of the low-memory killer, which init makes read the swap
  table again when the tool has stopped, corrects its view of free swap.

  \<^bold>\<open>The theories.\<close>
  \<^item> \<open>Axion_Prelude\<close>: machine integers as words, error codes, branch-free idioms, decimal text, C
    strings; the lemma collections \<open>c_arith\<close> and \<open>unat_simps\<close>.
  \<^item> \<open>Kernel_Tasks\<close>: the fields of \<open>task_struct\<close> the modules use, as a record in a heap; the locale
    \<open>kabi_view\<close> of a structure kept in the reserved words.
  \<^item> \<open>Bore_Context\<close>, \<open>Bore_Penalty\<close> (\<^verbatim>\<open>bore_sched.h\<close>): the context and the packed cache word; the
    logarithm, the penalty and the smoothing, with their meaning on natural numbers.
  \<^item> \<open>Bore_Cache\<close> (\<^verbatim>\<open>bore_sched_main.c\<close>, \<open>init_bore_reciprocal_lut\<close> to \<open>inherit_from_thread_group\<close>):
    the reciprocal table, the cache and the three ways to inherit; the relations \<open>ancestor_hub\<close> and
    \<open>chain_bottom\<close> say where the walks in the task tree should end, and the locale \<open>penalty_source\<close>
    what the three ways have in common.
  \<^item> \<open>Bore_Probes\<close> (\<open>bore_score\<close> to \<open>probe_bore_set_load_weight\<close>): the seven hook handlers and the bounds
    they keep.
  \<^item> \<open>Bore_Spec\<close>: an abstract burst (run time and three penalties as naturals) that runs, ends and is
    forked; the handlers refine it through \<open>abs_burst\<close> and keep \<open>ctx_rest\<close>, the flags and caches that
    make up the rest of a context.
  \<^item> \<open>Hook_Registry\<close>, \<open>Bore_Module\<close>, \<open>Latency_Module\<close>: registration of hooks, sysctl table and proc
    entry (name, mode and operations) with the roll-back labels of the init functions; the
    locale \<open>hook_module\<close> is the contract both modules are shown to satisfy.
  \<^item> \<open>Sched_Tunables\<close>: module parameters and sysctl rows as two ways to the same variables; the locale
    \<open>tunable_store\<close> states the laws of a module's variables; the rows' handlers have the other
    signedness than the variables, and the smoothness has no bound.
  \<^item> \<open>Hook_Dispatch\<close> (\<^verbatim>\<open>trace/hooks/bore.h\<close>, \<^verbatim>\<open>trace/hooks/latency.h\<close>): the hooks with their arguments, the
    call that runs an attached probe, and a step relation of a kernel with both modules: loading,
    unloading, hook calls, tunable writes and task creation in any order. The locale \<open>hook_service\<close>
    extends \<open>hook_module\<close> by what the flags of a loaded module say about its registrations.
  \<^item> \<open>Latency_Sched\<close> (\<^verbatim>\<open>latency_sched.h\<close>, \<^verbatim>\<open>latency_sched_main.c\<close>): class, offset, comparison and
    the four hook handlers.
  \<^item> \<open>Dragonite_Core\<close> (\<^verbatim>\<open>ax_dragonite_main.c\<close>): the four operations with reference counts, RCU
    sections, allocations and counters as state; the locale \<open>axd_operation\<close> is their shared contract.
  \<^item> \<open>Dragonite_Proc\<close> (\<^verbatim>\<open>ax_dragonite_proc.c\<close>): the write and show handlers, the operation tables, the
    proc tree, loading and unloading, and the mode changes of \<^verbatim>\<open>init.axion.rc\<close> on boot.
  \<^item> \<open>Dragonite_Lock\<close> (the same file): the handlers as small steps of several threads around
    \<open>g_proc_lock\<close>, with a program counter for each.
  \<^item> \<open>Ram_Plus_Swaps\<close> (\<^verbatim>\<open>ram_plus_lmkd_hooks.cpp\<close> and the readers of \<^verbatim>\<open>ax_ram_plus_setup.cpp\<close>): the
    two readers of the kernel's swap table and the correction of free swap.
  \<^item> \<open>Ram_Plus_Setup\<close> (\<^verbatim>\<open>ax_ram_plus_setup.cpp\<close>): every step of the set-up tool and its \<open>main\<close>, with
    the system's answers as parameters.
  \<^item> \<open>Ram_Plus_Boot\<close> (\<^verbatim>\<open>init.axion.ramplus.rc\<close>): the tool and the low-memory killer over one boot.
  \<^item> \<open>Axion_Props\<close> (\<^verbatim>\<open>gen_axion_props.py\<close>): the property generator.
  \<^item> This theory: properties that span modules.

  \<^bold>\<open>What is shown.\<close> For BORE: the arithmetic equals its mathematical meaning over the whole 64-bit
  range; the handlers implement the abstract burst; the walks over the task tree end on every acyclic
  tree; accounting does not depend on the tick length. For latency-nice: classes, offsets
  and the wake-up decision, without truncation for maxima below \<open>2 ^ 31\<close>. For both schedulers in one
  kernel: loading is all or nothing and unloading undoes it, probes run exactly while their module is
  active, penalties stay within their bound on every reachable state, both interfaces to the
  tunables reach the same variables, and the smoothness values that make a handler undefined are known.
  For AxDragonite: the exact effect of each operation on every branch, balanced
  resources over any sequence of calls, every proc write handled without overrun, the errors of each
  file, rules reaching the driver as written, files created with the modes their operations call for
  (and what the boot script makes of them), and for concurrent processes mutual exclusion, freedom
  from deadlock and no leak. For RAM Plus, when properties can be set: the published status is honest, success is verified against the kernel's table,
  the storage reserve is kept, both readers agree on the table, the corrected free swap is bounded,
  and after a boot the published size is the one the low-memory killer works with. For the property
  generator: the outcome of every command line, and that its file determines the pairs. Across
  modules: a boost is seen by both schedulers and lasts through every later hook call, and run time
  accounted by BORE moves the latency offset, since both modules use the same reserved word.

  \<^bold>\<open>Choices.\<close> Signed and unsigned C integers are words of their width, read by \<^const>\<open>sint\<close> and
  \<^const>\<open>unat\<close>. Undefined behaviour and stores outside an array are \<^const>\<open>None\<close>. Loops over lists are
  structural recursion, loops over text and offsets recurse on what is left; the two walks over
  parent and child pointers and the wait for a child process are partial functions into options,
  without fuel, and shown to return a value (on acyclic trees, and when the wait is not interrupted
  for ever). The fuel of \<open>run_alone\<close> is 10, more than the eight steps of the longest handler, the
  statistics. Hook handlers run one after another: run queue locks, RCU sections and atomics make each
  handler's access to its task atomic with respect to the others; the handlers of the proc files are
  also interleaved step by step, with a call into the driver as one step. What the kernel answers (lookups, allocations, registration
  results, number parsing, affinity and nice changes) is a parameter; the contracts assumed of it are
  the definitions \<open>affinity_contract\<close>, \<open>nice_contract\<close>, \<open>reads_decimal\<close>, \<open>parser_errors\<close>,
  \<open>swap_contract\<close>, \<open>swaps_contract\<close> and \<open>task_forest\<close>. CPU masks are one 64-bit word.

  \<^bold>\<open>Not modelled.\<close> The kernel's conversion of the text written to a sysctl file or module parameter,
  log output, the lookup wrapper for kernels before 5.0, module metadata, build files, the owners of
  files, the other init scripts, SELinux policy and product configuration hold no algorithm of the program's own. Planned
  further: interleavings inside the driver calls (the collecting loops under RCU against exiting
  tasks) and inside the readers of the burst cache, which take no lock.
\<close>

section \<open>Two modules, one reserved word\<close>

lemma bore_put_latency_se:
  "latency_get_se (bore_put_ctx h p c) p =
    \<lparr>latency_offset = ucast (burst_time c), latency_nice = ucast (drop_bit 32 (burst_time c)),
     lse_flags = ucast (drop_bit 48 (burst_time c))\<rparr>"
  by (simp add: latency_get_se_def bore_put_ctx_def bore_store_def latency_load_def)

lemma update_curr_burst_time:
  assumes "sched_bore (params S) \<noteq> 0" and "stop_update (bore_get_ctx h p) = 0"
  shows "\<exists>c. fst (probe_bore_update_curr S h (Some p) d np) = bore_put_ctx h p c \<and>
    burst_time c = burst_time (bore_get_ctx h p) + d"
  using assms by (auto simp: probe_bore_update_curr_def update_penalty_def Let_def)

text \<open>
  The BORE context and the latency entity of a task overlap. Storing a latency entity replaces
  the task's BORE run time by the bits of the entity and keeps the rest of the context; storing a
  BORE context makes the latency entity read the bits of the run time.
\<close>

lemma reserved_word_shared:
  "bore_get_ctx (latency_put_se h p e) p =
      (bore_get_ctx h p)\<lparr>burst_time := latency_word (latency_offset e) (latency_nice e) (lse_flags e)\<rparr> \<and>
   latency_get_se (bore_put_ctx h p c) p =
      \<lparr>latency_offset = ucast (burst_time c), latency_nice = ucast (drop_bit 32 (burst_time c)),
       lse_flags = ucast (drop_bit 48 (burst_time c))\<rparr>"
  by (simp add: latency_put_bore_ctx bore_put_latency_se)

lemma latency_word_of_se:
  "latency_word (latency_offset (latency_get_se h p)) (latency_nice (latency_get_se h p))
    (lse_flags (latency_get_se h p)) = burst_time (bore_get_ctx h p)"
  by (simp add: latency_get_se_def latency_load_def latency_word_join bore_get_ctx_def bore_load_def)

lemma ucast_add_s32: "ucast (w + d) = (ucast w + ucast d :: s32)" for w d :: u64
proof -
  have "take_bit 32 (take_bit 64 a + take_bit 64 b) = take_bit 32 (a + b)" for a b :: int
  proof -
    have "take_bit 32 (take_bit 64 a + take_bit 64 b) =
        take_bit 32 (take_bit 32 (take_bit 64 a) + take_bit 32 (take_bit 64 b))"
      by (simp only: take_bit_add)
    also have "\<dots> = take_bit 32 (take_bit 32 a + take_bit 32 b)"
      by simp
    finally show ?thesis by (simp only: take_bit_add)
  qed
  then show ?thesis by transfer simp
qed

text \<open>The word the two modules share after a tick.\<close>

lemma tick_shared_word:
  fixes d :: u64 and np :: "s32 option"
  assumes "sched_bore (params S) \<noteq> 0" and "stop_update (bore_get_ctx h p) = 0"
  defines "e \<equiv> latency_get_se h p"
    and "e' \<equiv> latency_get_se (fst (probe_bore_update_curr S h (Some p) d np)) p"
  shows "latency_word (latency_offset e') (latency_nice e') (lse_flags e') =
      latency_word (latency_offset e) (latency_nice e) (lse_flags e) + d"
    and "latency_offset e' = latency_offset e + ucast d"
proof -
  obtain c where c: "fst (probe_bore_update_curr S h (Some p) d np) = bore_put_ctx h p c"
      "burst_time c = burst_time (bore_get_ctx h p) + d"
    using update_curr_burst_time [OF assms(1,2)] by blast
  show "latency_word (latency_offset e') (latency_nice e') (lse_flags e') =
      latency_word (latency_offset e) (latency_nice e) (lse_flags e) + d"
    unfolding e_def e'_def latency_word_of_se by (simp add: c)
  show "latency_offset e' = latency_offset e + ucast d"
    unfolding e_def e'_def c(1) bore_put_latency_se
    by (simp add: c(2) ucast_add_s32 latency_get_se_def latency_load_def bore_get_ctx_def bore_load_def)
qed

lemma classify_keeps_stop: "stop_update (bore_get_ctx (update_task_latency_nice P h p) t) = stop_update (bore_get_ctx h t)"
proof (cases p)
  case (Some q)
  have "reserved2 (kabi_area (update_task_latency_nice P h (Some q) t)) = reserved2 (kabi_area (h t))"
    by (subst update_task_latency_nice_word) simp
  with Some show ?thesis by (simp add: bore_get_ctx_def bore_load_def)
qed (simp add: update_task_latency_nice_def)

text \<open>
  C35: with both modules loaded, run time accounted by BORE moves the latency offset. For any task,
  whatever class the latency module gave it, a tick of \<open>d\<close> ns with the scheduler enabled and
  updates not stopped adds \<open>d\<close> to the word that holds the latency entity, so the 32-bit offset grows
  by \<open>d\<close> as well. A freshly classified eligible task therefore has the offset of its class plus
  \<open>d\<close>, as long as that stays below \<open>2 ^ 31\<close>, and not the offset its class calls for.
\<close>

theorem bore_tick_shifts_latency_offset:
  assumes "sched_bore (params S) \<noteq> 0" and "stop_update (bore_get_ctx h p) = 0"
  shows "(let e = latency_get_se h p; e' = latency_get_se (fst (probe_bore_update_curr S h (Some p) d np)) p
      in latency_word (latency_offset e') (latency_nice e') (lse_flags e') =
           latency_word (latency_offset e) (latency_nice e) (lse_flags e) + d \<and>
         latency_offset e' = latency_offset e + ucast d) \<and>
    (latency_task_is_eligible h p \<and> sane_latency P \<and> unat d + nat (sint (sched_latency_max P)) < 2 ^ 31 \<longrightarrow>
      (let h1 = update_task_latency_nice P h (Some p); h2 = fst (probe_bore_update_curr S h1 (Some p) d np);
           off = offset_spec (sint (sched_latency_max P)) (latency_class (sint (static_prio (h p))))
       in sint (latency_offset (latency_get_se h1 p)) = off \<and>
          sint (latency_offset (latency_get_se h2 p)) = off + int (unat d)))"
proof (intro conjI impI)
  show "let e = latency_get_se h p; e' = latency_get_se (fst (probe_bore_update_curr S h (Some p) d np)) p
      in latency_word (latency_offset e') (latency_nice e') (lse_flags e') =
           latency_word (latency_offset e) (latency_nice e) (lse_flags e) + d \<and>
         latency_offset e' = latency_offset e + ucast d"
    using tick_shared_word [OF assms] by (simp add: Let_def)
next
  assume *: "latency_task_is_eligible h p \<and> sane_latency P \<and> unat d + nat (sint (sched_latency_max P)) < 2 ^ 31"
  let ?h = "update_task_latency_nice P h (Some p)" and ?m = "sint (sched_latency_max P)"
  let ?off = "offset_spec ?m (latency_class (sint (static_prio (h p))))"
  have off: "sint (latency_offset (latency_get_se ?h p)) = ?off"
    using update_task_latency_nice_self * by (simp add: classified_def)
  have bound: "\<bar>?off\<bar> \<le> ?m" and m: "0 \<le> ?m"
    using offset_spec_bound [OF latency_class_range, of ?m] * by (simp_all add: sane_latency_def)
  have "unat (ucast d :: s32) = unat d"
    using * by (simp add: unsigned_ucast_eq take_bit_nat_eq_self)
  then have "sint (ucast d :: s32) = int (unat d)"
    using * by (simp add: sint_of_small)
  moreover have "- 2147483648 \<le> ?off + int (unat d)" "?off + int (unat d) < 2147483648"
    using * bound m by (auto simp: abs_le_iff)
  ultimately have "sint (latency_offset (latency_get_se ?h p) + ucast d) = ?off + int (unat d)"
    by (subst sint_add_small) (simp_all add: off)
  then show "let h1 = ?h; h2 = fst (probe_bore_update_curr S h1 (Some p) d np); off = ?off
       in sint (latency_offset (latency_get_se h1 p)) = off \<and>
          sint (latency_offset (latency_get_se h2 p)) = off + int (unat d)"
    using off tick_shared_word(2) [OF assms(1), of ?h p d np] assms(2) by (simp add: Let_def classify_keeps_stop)
qed

theorem bore_tick_shifts_latency_offset_witness:
  "let h = example_heap(3 := example_task\<lparr>static_prio := 110\<rparr>);
       h1 = update_task_latency_nice default_latency_params h (Some 3);
       h2 = fst (probe_bore_update_curr example_bore_state h1 (Some 3) 4000000 None)
   in sint (latency_offset (latency_get_se h1 3)) = - 24000000 \<and>
      sint (latency_offset (latency_get_se h2 3)) = - 20000000"
proof -
  let ?h = "example_heap(3 := example_task\<lparr>static_prio := 110\<rparr>)"
  have "stop_update (bore_get_ctx ?h 3) = 0" "latency_task_is_eligible ?h 3" "sint (static_prio (?h 3)) = 110"
    by (simp_all add: bore_get_ctx_def bore_load_def example_task_def latency_task_is_eligible_def kernel_consts)
  moreover have "sane_latency default_latency_params" "sint (sched_latency_max default_latency_params) = 24000000"
    by (simp_all add: sane_latency_def default_latency_params_def DEFAULT_SCHED_LATENCY_MAX_def)
  ultimately show ?thesis
    using bore_tick_shifts_latency_offset [of example_bore_state ?h 3 4000000 None default_latency_params]
    by (simp add: example_bore_state_def Let_def latency_class_def offset_spec_class del: fun_upd_apply)
qed

section \<open>A boost seen by the schedulers\<close>

lemma reniced_static_prio: "reniced ts p h h' \<Longrightarrow> t \<in> set ts \<Longrightarrow> static_prio (h' t) = p"
  by (auto simp: reniced_def)

lemma reniced_eligible: "reniced ts p h h' \<Longrightarrow> latency_task_is_eligible h' t = latency_task_is_eligible h t"
  by (cases "t \<in> set ts") (auto simp: reniced_def latency_task_is_eligible_def)

lemma dequeue_protected:
  assumes "unat (sched_burst_smoothness (params S)) < 32" and "sched_bore (params S) \<noteq> 0" and "is_protected (h p)"
  shows "\<exists>h'. probe_bore_dequeue_task_fair S h (Some p) DEQUEUE_SLEEP = Some h' \<and> penalty (bore_get_ctx h' p) = 0"
proof -
  obtain ctx' np' where r: "restart_burst_bore (params S) (h p) (bore_get_ctx h p) None = Some (ctx', np')"
    "abs_burst ctx' = spec_restart (params S) (is_protected (h p)) (abs_burst (bore_get_ctx h p))"
    using restart_refines [OF assms(1), of "h p" "bore_get_ctx h p" None] by blast
  have "b_penalty (abs_burst ctx') = 0"
    by (simp add: r(2) assms(3) spec_restart_def spec_penalty_def Let_def)
  then have "penalty ctx' = 0"
    by (simp add: abs_burst_def unat_eq_0)
  then show ?thesis
    using r(1) assms(2) by (simp add: probe_bore_dequeue_task_fair_def DEQUEUE_SLEEP_def)
qed

lemma boosted_latency:
  assumes "reniced ts 100 h h'" and "t \<in> set ts" and "latency_task_is_eligible h t" and "sane_latency P"
    and "sched_latency_nice_enabled P \<noteq> 0"
  shows "sint (latency_nice (latency_get_se (probe_latency_set_user_nice P h' (Some t)) t)) = - 20"
proof -
  have "classified P h' t (latency_get_se (update_task_latency_nice P h' (Some t)) t)"
    using assms(3,4) reniced_eligible [OF assms(1)] by (intro update_task_latency_nice_self) simp_all
  then show ?thesis
    using assms(5) reniced_static_prio [OF assms(1,2)]
    by (simp add: probe_latency_set_user_nice_def classified_def latency_class_def)
qed

text \<open>
  C24: boosting a group reaches both schedulers. A boost with a positive level succeeds, and then
  every thread of the group is protected from burst penalties: when its current burst ends by a
  dequeue for sleeping, its penalty is zero, and it is zero after any further sequence of hook
  calls of both modules, on any tasks and under any tunables, for as long as the kernel does not
  change its priority again. A thread that is also eligible for the latency module, when that is
  enabled, is made latency critical by the module's hook.
\<close>

theorem boost_reaches_schedulers:
  assumes "nice_contract E" and "0 < sint pid" and "0 < sint lvl"
    and "lookup_group E pid s = Some task"
    and "unat (sched_burst_smoothness (params S)) < 32" and "sched_bore (params S) \<noteq> 0"
  shows "\<exists>s'. axd_set_boost E pid lvl s = Some (Inr (), s') \<and>
    (\<forall>t \<in> set (threads_of (tasks s) task).
      is_protected (tasks s' t) \<and>
      (\<exists>h1. probe_bore_dequeue_task_fair S (tasks s') (Some t) DEQUEUE_SLEEP = Some h1 \<and>
        penalty (bore_get_ctx h1 t) = 0 \<and>
        (\<forall>h2. hook_calls h1 h2 \<longrightarrow> penalty (bore_get_ctx h2 t) = 0)) \<and>
      (latency_task_is_eligible (tasks s) t \<and> sane_latency P \<and> sched_latency_nice_enabled P \<noteq> 0 \<longrightarrow>
        sint (latency_nice (latency_get_se (probe_latency_set_user_nice P (tasks s') (Some t)) t)) = - 20))"
proof -
  obtain s' where s': "axd_set_boost E pid lvl s = Some (Inr (), s')"
    and re: "reniced (threads_of (tasks s) task) 100 (tasks s) (tasks s')"
    using set_boost_exact [OF assms(1), of pid lvl s] assms(2-4) by auto
  have prot: "is_protected (tasks s' t)" if "t \<in> set (threads_of (tasks s) task)" for t
    using reniced_static_prio [OF re that] by (simp add: is_protected_def)
  have "\<exists>h1. probe_bore_dequeue_task_fair S (tasks s') (Some t) DEQUEUE_SLEEP = Some h1 \<and>
      penalty (bore_get_ctx h1 t) = 0 \<and> (\<forall>h2. hook_calls h1 h2 \<longrightarrow> penalty (bore_get_ctx h2 t) = 0)"
    if t: "t \<in> set (threads_of (tasks s) task)" for t
  proof -
    obtain h1 where h1: "probe_bore_dequeue_task_fair S (tasks s') (Some t) DEQUEUE_SLEEP = Some h1"
        "penalty (bore_get_ctx h1 t) = 0"
      using dequeue_protected [OF assms(5,6)] prot [OF t] by blast
    moreover have "is_protected (h1 t)"
      using is_protected_frame [OF end_of_burst_protected(1) [OF disjI1 [OF h1(1)]]] prot [OF t] by simp
    ultimately show ?thesis
      using hook_calls_protected by blast
  qed
  with s' prot boosted_latency [OF re] show ?thesis by blast
qed

text \<open>Thread 5 of the example group sleeps after the boost and is then ticked for 900 ms.\<close>

theorem boost_reaches_schedulers_witness:
  "\<exists>s' h1. axd_set_boost example_axd_env 42 1 example_axd_kern = Some (Inr (), s') \<and>
    probe_bore_dequeue_task_fair example_bore_state (tasks s') (Some 5) DEQUEUE_SLEEP = Some h1 \<and>
    penalty (bore_get_ctx (fst (probe_bore_update_curr example_bore_state h1 (Some 5) 900000000 None)) 5) = 0 \<and>
    sint (latency_nice (latency_get_se (probe_latency_set_user_nice default_latency_params (tasks s') (Some 5)) 5)) = - 20"
proof -
  have "5 \<in> set (threads_of (tasks example_axd_kern) 4)"
    by (simp add: threads_of_def example_axd_kern_def)
  moreover have "latency_task_is_eligible (tasks example_axd_kern) 5"
    by (simp add: latency_task_is_eligible_def example_axd_defs kernel_consts)
  moreover have "sane_latency default_latency_params" "sched_latency_nice_enabled default_latency_params \<noteq> 0"
    by (simp_all add: sane_latency_def default_latency_params_def DEFAULT_SCHED_LATENCY_MAX_def)
  moreover have "unat (sched_burst_smoothness (params example_bore_state)) < 32" "sched_bore (params example_bore_state) \<noteq> 0"
    by (simp_all add: example_bore_state_def)
  moreover have "hook_calls h (fst (probe_bore_update_curr example_bore_state h (Some 5) 900000000 None))" for h
    by (rule bore_run [OF no_call, of example_bore_state None 0 _ "Call_update_curr (Some 5) 900000000 None"])
      (simp, rule surjective_pairing)
  ultimately show ?thesis
    using boost_reaches_schedulers [OF example_nice_contract _ _ example_group, of 1 example_bore_state default_latency_params]
    by auto
qed

section \<open>The files of the modules\<close>

lemmas file_tables = file_typed_def axd_ops_defs
  bore_proc_fops_def latency_proc_fops_def mode_0444_def mode_0664_def mode_0222_def mode_0666_def

lemma axd_ops_typed:
  "file_typed mode_0666 (axd_ops_table v Nta_pid_ops)"
  "file_typed mode_0222 (axd_ops_table v Nta_affinity_ops)"
  "file_typed mode_0222 (axd_ops_table v Nta_reset_ops)"
  "file_typed mode_0222 (axd_ops_table v Dragonite_boost_ops)"
  "file_typed mode_0222 (axd_ops_table v Dragonite_kswapd_ops)"
  "file_typed mode_0444 (axd_ops_table v Dragonite_stats_ops)"
  by (simp_all add: file_tables)

lemma proc_create_in_files:
  "proc_dirs (proc_create_in mk d f md ops F) = proc_dirs F"
  "proc_files (proc_create_in mk d f md ops F) = (if mk d f then [(d, f, md, ops)] else []) @ proc_files F"
  by (simp_all add: proc_create_in_def)

lemma proc_mkdir_files:
  "proc_dirs (proc_mkdir mk d F) = (if mk d then [d] else []) @ proc_dirs F"
  "proc_files (proc_mkdir mk d F) = proc_files F"
  by (simp_all add: proc_mkdir_def)

lemma axd_dirs_differ: "AXD_PROC_NTA_DIR \<noteq> AXD_PROC_DRAGONITE_DIR"
  by (simp add: AXD_PROC_NTA_DIR_def AXD_PROC_DRAGONITE_DIR_def)

lemma axd_files_created:
  "case axd_proc_init mkd mkf S \<lparr>proc_dirs = [], proc_files = []\<rparr> of (r, S', F) \<Rightarrow>
    list_all (\<lambda>(d, f, md, ops). d \<in> set (proc_dirs F) \<and> file_typed md (axd_ops_table v ops)) (proc_files F) \<and>
    distinct (map (\<lambda>(d, f, md, ops). (d, f)) (proc_files F))"
  using axd_dirs_differ
  by (cases "mkd AXD_PROC_NTA_DIR"; cases "mkd AXD_PROC_DRAGONITE_DIR")
    (simp_all add: axd_proc_init_def proc_create_in_files proc_mkdir_files Let_def axd_ops_typed axd_names
      del: axd_ops_table.simps)

text \<open>The mode 0664 fits none of the tables; only the statistics file has no write handler.\<close>

lemma axd_ops_after_boot:
  "\<not> file_typed mode_0664 (axd_ops_table v ops)" "file_typed mode_0444 (axd_ops_table v Dragonite_stats_ops)"
  "proc_write (axd_ops_table v ops) = None \<longleftrightarrow> ops = Dragonite_stats_ops"
  by (cases ops; simp add: file_tables)+

lemma axd_files_after_boot:
  "case axd_proc_init mkd mkf S \<lparr>proc_dirs = [], proc_files = []\<rparr> of (r, S', F) \<Rightarrow>
    list_all (\<lambda>(d, f, md, ops). md = (if proc_write (axd_ops_table v ops) = None then mode_0444 else mode_0664) \<and>
      (file_typed md (axd_ops_table v ops) \<longleftrightarrow> proc_write (axd_ops_table v ops) = None)) (proc_files (init_axion_boot F))"
  by (cases "mkd AXD_PROC_NTA_DIR"; cases "mkd AXD_PROC_DRAGONITE_DIR")
    (simp_all add: axd_proc_init_def init_axion_boot_def chmod_def proc_create_in_files proc_mkdir_files Let_def
      axd_ops_after_boot AXD_PROC_NTA_DIR_def AXD_PROC_DRAGONITE_DIR_def axd_names del: axd_ops_table.simps)

lemma sched_files_typed:
  "case bore_sched_init reg sysctl_ok proc_ok ts (S, h) K of (r, M, K') \<Rightarrow>
    proc_entries K' = (if proc_ok then [(''bore'', mode_0444, bore_proc_fops)] else []) @ proc_entries K"
  "case latency_sched_init lreg sysctl_ok proc_ok ts (T, h) L of (r, M, L') \<Rightarrow>
    proc_entries L' = (if proc_ok then [(''latency_sched'', mode_0444, latency_proc_fops)] else []) @ proc_entries L"
  "file_typed mode_0444 bore_proc_fops" "file_typed mode_0444 latency_proc_fops"
proof -
  show "case bore_sched_init reg sysctl_ok proc_ok ts (S, h) K of (r, M, K') \<Rightarrow>
    proc_entries K' = (if proc_ok then [(''bore'', mode_0444, bore_proc_fops)] else []) @ proc_entries K"
    by (cases "\<exists>k \<in> set bore_hooks. reg k \<noteq> 0")
      (simp_all add: bore_sched_init_def bore_register_all_ok bore_register_all_fail registry_defs)
  show "case latency_sched_init lreg sysctl_ok proc_ok ts (T, h) L of (r, M, L') \<Rightarrow>
    proc_entries L' = (if proc_ok then [(''latency_sched'', mode_0444, latency_proc_fops)] else []) @ proc_entries L"
    by (cases "\<exists>k \<in> set latency_hooks. lreg k \<noteq> 0")
      (simp_all add: latency_sched_init_def latency_register_all_ok latency_register_all_fail registry_defs)
qed (simp_all add: file_tables)

text \<open>
  C26: every proc file is created with the mode its operations call for. Whatever entries the
  kernel creates, each file of the driver lies in a directory that was created, no path is used
  twice, and the mode it is created with lets everybody read or write it exactly when its table has
  the operation; files opened by the seq-file library are also read and released by it. So are the
  entries the two scheduler modules create when they are loaded, with hooks or without. With all
  entries created, each path leads to its write handler, and none does after unloading. The boot
  script then changes the modes of the driver's files: every writable file gets 0664, also the four
  that cannot be read, so that only the mode of the statistics file still fits its operations.
\<close>

theorem proc_files_typed:
  "(case axd_proc_init mkd mkf S \<lparr>proc_dirs = [], proc_files = []\<rparr> of (r, S', F) \<Rightarrow>
     list_all (\<lambda>(d, f, md, ops). d \<in> set (proc_dirs F) \<and> file_typed md (axd_ops_table v ops)) (proc_files F) \<and>
     distinct (map (\<lambda>(d, f, md, ops). (d, f)) (proc_files F))) \<and>
   (case bore_sched_init reg sysctl_ok proc_ok ts (B, h) no_reg of (r, M, K) \<Rightarrow>
     length (proc_entries K) = of_bool proc_ok \<and> list_all (\<lambda>(f, md, ops). file_typed md ops) (proc_entries K)) \<and>
   (case latency_sched_init lreg sysctl_ok proc_ok ts (C, h) no_reg of (r, M, K) \<Rightarrow>
     length (proc_entries K) = of_bool proc_ok \<and> list_all (\<lambda>(f, md, ops). file_typed md ops) (proc_entries K)) \<and>
   (case axd_init (\<lambda>_. True) (\<lambda>_ _. True) S \<lparr>proc_dirs = [], proc_files = []\<rparr> of (r, S', F) \<Rightarrow>
     axd_file_write v E L F ''ax_named_thread_affinity'' ''pid'' n u T = Some (nta_pid_write L n u T) \<and>
     axd_file_write v E L F ''ax_named_thread_affinity'' ''named_thread_affinity'' n u T =
       Some (nta_affinity_write E L n u T) \<and>
     axd_file_write v E L F ''ax_named_thread_affinity'' ''reset'' n u T = Some (nta_reset_write E L n u T) \<and>
     axd_file_write v E L F ''ax_dragonite'' ''boost'' n u T = Some (dragonite_boost_write E L n u T) \<and>
     axd_file_write v E L F ''ax_dragonite'' ''kswapd_pin'' n u T = Some (dragonite_kswapd_write E L n u T) \<and>
     axd_file_write v E L F ''ax_dragonite'' ''stats'' n u T = None \<and>
     axd_file_write v E L (axd_exit S' F) d f n u T = None) \<and>
   (case axd_proc_init mkd mkf S \<lparr>proc_dirs = [], proc_files = []\<rparr> of (r, S', F) \<Rightarrow>
     list_all (\<lambda>(d, f, md, ops). md = (if proc_write (axd_ops_table v ops) = None then mode_0444 else mode_0664) \<and>
       (file_typed md (axd_ops_table v ops) \<longleftrightarrow> proc_write (axd_ops_table v ops) = None)) (proc_files (init_axion_boot F)))"
proof (intro conjI)
  show "case bore_sched_init reg sysctl_ok proc_ok ts (B, h) no_reg of (r, M, K) \<Rightarrow>
     length (proc_entries K) = of_bool proc_ok \<and> list_all (\<lambda>(f, md, ops). file_typed md ops) (proc_entries K)"
    using sched_files_typed(1) [where reg = reg and sysctl_ok = sysctl_ok and proc_ok = proc_ok and ts = ts and S = B and h = h and K = no_reg] sched_files_typed(3)
    by (auto simp: no_reg_def split: prod.splits)
  show "case latency_sched_init lreg sysctl_ok proc_ok ts (C, h) no_reg of (r, M, K) \<Rightarrow>
     length (proc_entries K) = of_bool proc_ok \<and> list_all (\<lambda>(f, md, ops). file_typed md ops) (proc_entries K)"
    using sched_files_typed(2) [where lreg = lreg and sysctl_ok = sysctl_ok and proc_ok = proc_ok and ts = ts and T = C and h = h and L = no_reg] sched_files_typed(4)
    by (auto simp: no_reg_def split: prod.splits)
qed (rule axd_files_created axd_paths_routed axd_files_after_boot)+

end
